theory Spec2Isabelle
  imports Main
begin

section \<open>JSON values and objects\<close>

text \<open>
  The server (\<^verbatim>\<open>server/index.js\<close>) handles request bodies and stored todos as plain
  JavaScript values obtained from \<^verbatim>\<open>JSON.parse\<close>. A number is an \<open>int\<close> here: the
  numbers of this application are millisecond timestamps and ids.
  A string is a list of characters. An object is its list of properties
  in insertion order, each key at most once.
\<close>

datatype json =
    JNull
  | JBool bool
  | JNum int
  | JStr string
  | JArr "json list"
  | JObj "(string \<times> json) list"

type_synonym obj = "(string \<times> json) list"

text \<open>\<^verbatim>\<open>o[k]\<close>: \<open>None\<close> is JavaScript's \<^verbatim>\<open>undefined\<close>.\<close>

definition get_prop :: "obj \<Rightarrow> string \<Rightarrow> json option" where
  "get_prop ob k = map_of ob k"

text \<open>\<^verbatim>\<open>k in o\<close>\<close>

definition has_prop :: "string \<Rightarrow> obj \<Rightarrow> bool" where
  "has_prop k ob = (case map_of ob k of None \<Rightarrow> False | Some v \<Rightarrow> True)"

text \<open>
  \<^verbatim>\<open>o[k] = v\<close>: an existing property keeps its place, a new one goes last.
\<close>

fun set_prop :: "obj \<Rightarrow> string \<Rightarrow> json \<Rightarrow> obj" where
  "set_prop [] k v = [(k, v)]"
| "set_prop (p # ps) k v = (if fst p = k then (k, v) # ps else p # set_prop ps k v)"

text \<open>The spread \<^verbatim>\<open>{ ...a, ...b }\<close>: the properties of \<open>b\<close> are assigned to a copy of \<open>a\<close>, in order.\<close>

definition spread :: "obj \<Rightarrow> obj \<Rightarrow> obj" where
  "spread a b = foldl (\<lambda>acc kv. set_prop acc (fst kv) (snd kv)) a b"

text \<open>\<^verbatim>\<open>typeof v === 'number'\<close>, \<^verbatim>\<open>typeof v === 'string'\<close>, and truthiness (\<^verbatim>\<open>!!v\<close>).\<close>

fun is_number :: "json \<Rightarrow> bool" where
  "is_number (JNum n) = True"
| "is_number v = False"

fun truthy :: "json option \<Rightarrow> bool" where
  "truthy None = False"
| "truthy (Some JNull) = False"
| "truthy (Some (JBool b)) = b"
| "truthy (Some (JNum n)) = (n \<noteq> 0)"
| "truthy (Some (JStr s)) = (s \<noteq> [])"
| "truthy (Some (JArr xs)) = True"
| "truthy (Some (JObj ps)) = True"

section \<open>HTTP responses\<close>

text \<open>
  \<^verbatim>\<open>res.status(c).json(v)\<close> is \<open>Json c v\<close>, \<^verbatim>\<open>res.json(v)\<close> is \<open>Json 200 v\<close> and
  \<^verbatim>\<open>res.status(c).end()\<close> is \<open>End c\<close>.
\<close>

datatype response = Json nat json | End nat

definition err :: "nat \<Rightarrow> string \<Rightarrow> response" where
  "err code msg = Json code (JObj [(''error'', JStr msg)])"

fun status :: "response \<Rightarrow> nat" where
  "status (Json c v) = c"
| "status (End c) = c"

section \<open>The todo handlers of the server\<close>

text \<open>
  Each handler is a function of the request and of the list \<^verbatim>\<open>readTodos(req.username)\<close>
  returned; it gives the response and the list the store holds afterwards (the argument
  of \<^verbatim>\<open>writeTodos\<close>, or the list as it was when the handler returns before writing).
  The requests are those that passed \<^verbatim>\<open>requireAuth\<close>.
\<close>

subsection \<open>PATCH /api/todos/reorder\<close>

text \<open>
  \<^verbatim>\<open>new Map(todos.map((t) => [t.id, t]))\<close>: the entries are set in order, so of two todos
  with one id the later one is kept.
\<close>

definition todoMap :: "obj list \<Rightarrow> json option \<Rightarrow> obj option" where
  "todoMap todos = foldl (\<lambda>m t. m(get_prop t ''id'' \<mapsto> t)) Map.empty todos"

text \<open>\<^verbatim>\<open>.filter(Boolean)\<close> on the results of \<^verbatim>\<open>Map.get\<close>: drops \<^verbatim>\<open>undefined\<close>.\<close>

fun filter_Boolean :: "'a option list \<Rightarrow> 'a list" where
  "filter_Boolean [] = []"
| "filter_Boolean (None # xs) = filter_Boolean xs"
| "filter_Boolean (Some x # xs) = x # filter_Boolean xs"

definition reorder_handler :: "obj \<Rightarrow> obj list \<Rightarrow> response \<times> obj list" where
  "reorder_handler body todos =
     (case get_prop body ''ids'' of
        Some (JArr ids) \<Rightarrow>
          if list_all is_number ids then
            (let reordered = filter_Boolean (map (\<lambda>i. todoMap todos (Some i)) ids) in
             if length reordered \<noteq> length todos
             then (err 400 ''ids do not match stored todos'', todos)
             else (Json 200 (JArr (map JObj reordered)), reordered))
          else (err 400 ''ids must be an array of numbers'', todos)
      | _ \<Rightarrow> (err 400 ''ids must be an array of numbers'', todos))"

subsection \<open>Strings and the validation constants\<close>

text \<open>
  \<^verbatim>\<open>String.prototype.trim\<close> removes white space and line terminators from both ends.
  The characters of the model are the code units below 256, of which these are
  white space: tab, line feed, vertical tab, form feed, carriage return, space and
  the no-break space.
\<close>

definition is_space :: "char \<Rightarrow> bool" where
  "is_space c = (c \<in> set [CHR 0x09, CHR 0x0A, CHR 0x0B, CHR 0x0C, CHR 0x0D, CHR 0x20, CHR 0xA0])"

definition trim :: "string \<Rightarrow> string" where
  "trim s = rev (dropWhile is_space (rev (dropWhile is_space s)))"

definition is_digit :: "char \<Rightarrow> bool" where
  "is_digit c = (c \<in> set ''0123456789'')"

text \<open>\<^verbatim>\<open>DATE_REGEX = /^\d{4}-\d{2}-\d{2}$/\<close>\<close>

definition DATE_REGEX :: "string \<Rightarrow> bool" where
  "DATE_REGEX s =
     (length s = 10 \<and> list_all is_digit (take 4 s) \<and> s ! 4 = CHR ''-''
      \<and> list_all is_digit (take 2 (drop 5 s)) \<and> s ! 7 = CHR ''-''
      \<and> list_all is_digit (drop 8 s))"

definition VALID_PRIORITIES :: "json list" where
  "VALID_PRIORITIES = [JStr ''low'', JStr ''medium'', JStr ''high'']"

definition MAX_TEXT_LENGTH :: nat where
  "MAX_TEXT_LENGTH = 500"

definition ALLOWED_UPDATE_FIELDS :: "string list" where
  "ALLOWED_UPDATE_FIELDS = [''text'', ''completed'', ''completedAt'', ''priority'', ''dueDate'']"

fun is_string :: "json option \<Rightarrow> bool" where
  "is_string (Some (JStr s)) = True"
| "is_string v = False"

text \<open>The characters of a value already known to be a string.\<close>

fun str :: "json option \<Rightarrow> string" where
  "str (Some (JStr s)) = s"
| "str v = []"

text \<open>
  \<^verbatim>\<open>dueDate !== null && (typeof dueDate !== 'string' || !DATE_REGEX.test(dueDate))\<close>
\<close>

fun bad_dueDate :: "json \<Rightarrow> bool" where
  "bad_dueDate JNull = False"
| "bad_dueDate (JStr s) = (\<not> DATE_REGEX s)"
| "bad_dueDate v = True"

subsection \<open>POST /api/todos\<close>

text \<open>
  The checks before the \<^verbatim>\<open>try\<close> block: \<open>None\<close> when the request passes, the 400
  response otherwise. \<^verbatim>\<open>priority\<close> and \<^verbatim>\<open>dueDate\<close> take their defaults when
  the body does not have them.
\<close>

definition create_priority :: "obj \<Rightarrow> json" where
  "create_priority body = (case get_prop body ''priority'' of None \<Rightarrow> JStr ''medium'' | Some p \<Rightarrow> p)"

definition create_dueDate :: "obj \<Rightarrow> json" where
  "create_dueDate body = (case get_prop body ''dueDate'' of None \<Rightarrow> JNull | Some d \<Rightarrow> d)"

definition create_validate :: "obj \<Rightarrow> response option" where
  "create_validate body =
     (let text = get_prop body ''text'' in
      if \<not> truthy text \<or> \<not> is_string text \<or> trim (str text) = []
      then Some (err 400 ''text is required'')
      else if length (trim (str text)) > MAX_TEXT_LENGTH
      then Some (err 400 ''text must be 500 characters or less'')
      else if create_priority body \<notin> set VALID_PRIORITIES
      then Some (err 400 ''priority must be low, medium, or high'')
      else if bad_dueDate (create_dueDate body)
      then Some (err 400 ''dueDate must be in YYYY-MM-DD format'')
      else None)"

text \<open>
  \<open>now\<close> is the value \<^verbatim>\<open>Date.now()\<close> returns while the request is handled: the
  server's clock in milliseconds.
\<close>

definition new_todo :: "int \<Rightarrow> obj \<Rightarrow> obj" where
  "new_todo now body =
     [(''id'', JNum now), (''text'', JStr (trim (str (get_prop body ''text'')))),
      (''completed'', JBool False), (''priority'', create_priority body),
      (''dueDate'', create_dueDate body), (''completedAt'', JNull)]"

definition create_handler :: "int \<Rightarrow> obj \<Rightarrow> obj list \<Rightarrow> response \<times> obj list" where
  "create_handler now body todos =
     (case create_validate body of
        Some r \<Rightarrow> (r, todos)
      | None \<Rightarrow> (Json 201 (JObj (new_todo now body)), todos @ [new_todo now body]))"

text \<open>
  A sequence of create requests of one user, handled one after the other, each with its
  clock reading: the responses in order, and the stored list at the end.
\<close>

fun create_all :: "(int \<times> obj) list \<Rightarrow> obj list \<Rightarrow> response list \<times> obj list" where
  "create_all [] todos = ([], todos)"
| "create_all (r # rs) todos =
     (let (resp, todos') = create_handler (fst r) (snd r) todos;
          (resps, todos'') = create_all rs todos'
      in (resp # resps, todos''))"

subsection \<open>PUT /api/todos/:id\<close>

text \<open>\<^verbatim>\<open>todos.findIndex(p)\<close>: the first index whose element satisfies \<open>p\<close>; \<open>None\<close> is \<open>-1\<close>.\<close>

fun findIndex :: "('a \<Rightarrow> bool) \<Rightarrow> 'a list \<Rightarrow> nat option" where
  "findIndex p [] = None"
| "findIndex p (x # xs) =
     (if p x then Some 0 else (case findIndex p xs of None \<Rightarrow> None | Some i \<Rightarrow> Some (Suc i)))"

text \<open>The checks on \<^verbatim>\<open>text\<close>, \<^verbatim>\<open>priority\<close> and \<^verbatim>\<open>dueDate\<close>, each made only when the body has the field.\<close>

definition put_validate :: "obj \<Rightarrow> response option" where
  "put_validate body =
     (let text = get_prop body ''text'' in
      if has_prop ''text'' body \<and> (\<not> is_string text \<or> trim (str text) = [])
      then Some (err 400 ''text must be a non-empty string'')
      else if has_prop ''text'' body \<and> length (trim (str text)) > MAX_TEXT_LENGTH
      then Some (err 400 ''text must be 500 characters or less'')
      else if (case get_prop body ''priority'' of None \<Rightarrow> False | Some p \<Rightarrow> p \<notin> set VALID_PRIORITIES)
      then Some (err 400 ''priority must be low, medium, or high'')
      else if (case get_prop body ''dueDate'' of None \<Rightarrow> False | Some d \<Rightarrow> bad_dueDate d)
      then Some (err 400 ''dueDate must be in YYYY-MM-DD format or null'')
      else None)"

text \<open>
  \<^verbatim>\<open>for (const field of ALLOWED_UPDATE_FIELDS) if (field in req.body) update[field] = req.body[field]\<close>
\<close>

definition collect_update :: "obj \<Rightarrow> obj" where
  "collect_update body =
     foldl (\<lambda>update field. case get_prop body field of None \<Rightarrow> update | Some v \<Rightarrow> set_prop update field v)
       [] ALLOWED_UPDATE_FIELDS"

text \<open>
  The route parameter arrives as \<^verbatim>\<open>Number(req.params.id)\<close>: \<open>None\<close> when that number
  is not finite. The stored record becomes \<^verbatim>\<open>{ ...todos[idx], ...update, id }\<close>.
\<close>

definition put_handler :: "int option \<Rightarrow> obj \<Rightarrow> obj list \<Rightarrow> response \<times> obj list" where
  "put_handler idp body todos =
     (case idp of
        None \<Rightarrow> (err 400 ''Invalid id'', todos)
      | Some i \<Rightarrow>
          (case put_validate body of
             Some r \<Rightarrow> (r, todos)
           | None \<Rightarrow>
               (case findIndex (\<lambda>t. get_prop t ''id'' = Some (JNum i)) todos of
                  None \<Rightarrow> (err 404 ''Todo not found'', todos)
                | Some idx \<Rightarrow>
                    (let todo' = set_prop (spread (todos ! idx) (collect_update body)) ''id'' (JNum i)
                     in (Json 200 (JObj todo'), todos[idx := todo'])))))"

section \<open>The store (server/storage.js)\<close>

text \<open>
  A read either returns a value or throws: \<open>Inl\<close> is the exception that reaches the
  caller. \<^verbatim>\<open>JSON.parse\<close> is the platform's; it is the parameter \<open>parse\<close>, which is
  \<open>None\<close> where \<^verbatim>\<open>JSON.parse\<close> throws a \<^verbatim>\<open>SyntaxError\<close>.
\<close>

datatype exn = SyntaxError | IOError | StoreError

definition JSON_parse :: "(string \<Rightarrow> json option) \<Rightarrow> string \<Rightarrow> exn + json" where
  "JSON_parse parse raw = (case parse raw of None \<Rightarrow> Inl SyntaxError | Some v \<Rightarrow> Inr v)"

subsection \<open>Local files\<close>

text \<open>
  A path of the file system holds nothing, something that cannot be read as a file (a
  directory, a file without read permission), or a file with its content.
\<close>

datatype fs_entry = NoFile | Unreadable | File string

definition existsSync :: "(string \<Rightarrow> fs_entry) \<Rightarrow> string \<Rightarrow> bool" where
  "existsSync fs path = (fs path \<noteq> NoFile)"

definition readFileSync :: "(string \<Rightarrow> fs_entry) \<Rightarrow> string \<Rightarrow> exn + string" where
  "readFileSync fs path = (case fs path of File raw \<Rightarrow> Inr raw | _ \<Rightarrow> Inl IOError)"

text \<open>Paths are relative to the directory of the module.\<close>

definition USERS_FILE :: string where
  "USERS_FILE = ''users.json''"

definition TODOS_DIR :: string where
  "TODOS_DIR = ''todos''"

text \<open>\<^verbatim>\<open>username.replace(/[^a-zA-Z0-9_-]/g, '')\<close>\<close>

definition safeName :: "string \<Rightarrow> string" where
  "safeName username =
     filter (\<lambda>c. c \<in> set ''abcdefghijklmnopqrstuvwxyzABCDEFGHIJKLMNOPQRSTUVWXYZ0123456789_-'') username"

text \<open>\<^verbatim>\<open>try { return JSON.parse(fs.readFileSync(file, 'utf8')); } catch { return []; }\<close>\<close>

definition read_or_empty :: "(string \<Rightarrow> json option) \<Rightarrow> (string \<Rightarrow> fs_entry) \<Rightarrow> string \<Rightarrow> exn + json" where
  "read_or_empty parse fs path =
     (case readFileSync fs path of
        Inl e \<Rightarrow> Inr (JArr [])
      | Inr raw \<Rightarrow> (case JSON_parse parse raw of Inl e \<Rightarrow> Inr (JArr []) | Inr v \<Rightarrow> Inr v))"

definition readUsersLocal :: "(string \<Rightarrow> json option) \<Rightarrow> (string \<Rightarrow> fs_entry) \<Rightarrow> exn + json" where
  "readUsersLocal parse fs =
     (if \<not> existsSync fs USERS_FILE then Inr (JArr []) else read_or_empty parse fs USERS_FILE)"

definition todos_path :: "string \<Rightarrow> string" where
  "todos_path username = TODOS_DIR @ ''/'' @ safeName username @ ''.json''"

definition readTodosLocal :: "(string \<Rightarrow> json option) \<Rightarrow> (string \<Rightarrow> fs_entry) \<Rightarrow> string \<Rightarrow> exn + json" where
  "readTodosLocal parse fs username =
     (if \<not> existsSync fs (todos_path username) then Inr (JArr [])
      else read_or_empty parse fs (todos_path username))"

subsection \<open>Netlify Blobs\<close>

text \<open>
  \<^verbatim>\<open>await store.get(key, { type: 'text' })\<close> is a call to the blob service: it resolves
  to the text of the entry, or to \<^verbatim>\<open>null\<close> when the store has no such entry, or it
  rejects. A blob store is a function of the store's name and the key.
\<close>

datatype blob_get = Rejected | Resolved "string option"

text \<open>
  \<^verbatim>\<open>const raw = await store.get(...); try { return raw ? JSON.parse(raw) : []; } catch { return []; }\<close>:
  the call of the store stands before the \<^verbatim>\<open>try\<close>.
\<close>

definition read_blob :: "(string \<Rightarrow> json option) \<Rightarrow> blob_get \<Rightarrow> exn + json" where
  "read_blob parse got =
     (case got of
        Rejected \<Rightarrow> Inl StoreError
      | Resolved None \<Rightarrow> Inr (JArr [])
      | Resolved (Some raw) \<Rightarrow>
          (if raw = [] then Inr (JArr [])
           else (case JSON_parse parse raw of Inl e \<Rightarrow> Inr (JArr []) | Inr v \<Rightarrow> Inr v)))"

definition readUsersNetlify :: "(string \<Rightarrow> json option) \<Rightarrow> (string \<Rightarrow> string \<Rightarrow> blob_get) \<Rightarrow> exn + json" where
  "readUsersNetlify parse blobs = read_blob parse (blobs ''app-data'' ''users'')"

definition readTodosNetlify :: "(string \<Rightarrow> json option) \<Rightarrow> (string \<Rightarrow> string \<Rightarrow> blob_get) \<Rightarrow> string \<Rightarrow> exn + json" where
  "readTodosNetlify parse blobs username = read_blob parse (blobs ''todos'' username)"

text \<open>The module exports one implementation or the other, by \<^verbatim>\<open>IS_NETLIFY\<close>.\<close>

definition readUsers ::
  "bool \<Rightarrow> (string \<Rightarrow> json option) \<Rightarrow> (string \<Rightarrow> fs_entry) \<Rightarrow> (string \<Rightarrow> string \<Rightarrow> blob_get) \<Rightarrow> exn + json" where
  "readUsers IS_NETLIFY parse fs blobs =
     (if IS_NETLIFY then readUsersNetlify parse blobs else readUsersLocal parse fs)"

definition readTodos ::
  "bool \<Rightarrow> (string \<Rightarrow> json option) \<Rightarrow> (string \<Rightarrow> fs_entry) \<Rightarrow> (string \<Rightarrow> string \<Rightarrow> blob_get) \<Rightarrow> string \<Rightarrow> exn + json" where
  "readTodos IS_NETLIFY parse fs blobs username =
     (if IS_NETLIFY then readTodosNetlify parse blobs username else readTodosLocal parse fs username)"

section \<open>The client (src/app/app.ts)\<close>

datatype Priority = Low | Medium | High

text \<open>
  The \<^verbatim>\<open>Todo\<close> interface. The optional fields \<^verbatim>\<open>dueDate\<close> and \<^verbatim>\<open>completedAt\<close> are
  \<open>None\<close> when they are \<^verbatim>\<open>null\<close> or absent, which the client never tells apart.
\<close>

record Todo =
  id' :: int
  text' :: string
  completed :: bool
  priority :: Priority
  dueDate :: "string option"
  completedAt :: "int option"

datatype Filter = FilterAll | FilterActive | FilterCompleted

datatype PriorityFilter = PriorityAll | PriorityOnly Priority

definition ARCHIVE_THRESHOLD_MS :: int where
  "ARCHIVE_THRESHOLD_MS = 5 * 24 * 60 * 60 * 1000"

subsection \<open>Archived todos\<close>

text \<open>
  \<^verbatim>\<open>t.completed && !!t.completedAt && now - t.completedAt! > ARCHIVE_THRESHOLD_MS\<close>;
  \<^verbatim>\<open>!!t.completedAt\<close> is false for \<^verbatim>\<open>null\<close>, for an absent field and for the number 0.
\<close>

definition isArchived :: "int \<Rightarrow> Todo \<Rightarrow> bool" where
  "isArchived now t =
     (completed t \<and>
      (case completedAt t of None \<Rightarrow> False | Some c \<Rightarrow> c \<noteq> 0 \<and> now - c > ARCHIVE_THRESHOLD_MS))"

definition archivedIds :: "int \<Rightarrow> Todo list \<Rightarrow> int set" where
  "archivedIds now todos = set (map id' (filter (isArchived now) todos))"

definition archivedTodos :: "int \<Rightarrow> Todo list \<Rightarrow> Todo list" where
  "archivedTodos now todos = filter (\<lambda>t. id' t \<in> archivedIds now todos) todos"

subsection \<open>The visible list\<close>

text \<open>
  \<^verbatim>\<open>Array.prototype.sort\<close> is stable. It is modelled by the stable insertion sort for
  the comparison function \<open>cmp\<close>: an element goes before the first element it does not
  compare greater than. For a consistent comparison function, as the one used here, every
  stable sort gives the same list.
\<close>

fun insort_cmp :: "('a \<Rightarrow> 'a \<Rightarrow> int) \<Rightarrow> 'a \<Rightarrow> 'a list \<Rightarrow> 'a list" where
  "insort_cmp cmp x [] = [x]"
| "insort_cmp cmp x (y # ys) = (if cmp x y \<le> 0 then x # y # ys else y # insort_cmp cmp x ys)"

definition js_sort :: "('a \<Rightarrow> 'a \<Rightarrow> int) \<Rightarrow> 'a list \<Rightarrow> 'a list" where
  "js_sort cmp xs = foldr (insort_cmp cmp) xs []"

definition completedCmp :: "Todo \<Rightarrow> Todo \<Rightarrow> int" where
  "completedCmp a b = (if completed a \<noteq> completed b then (if completed a then 1 else - 1) else 0)"

definition statusOk :: "Filter \<Rightarrow> Todo \<Rightarrow> bool" where
  "statusOk f t = (f = FilterAll \<or> (if f = FilterActive then \<not> completed t else completed t))"

definition priorityOk :: "PriorityFilter \<Rightarrow> Todo \<Rightarrow> bool" where
  "priorityOk p t = (p = PriorityAll \<or> p = PriorityOnly (priority t))"

definition isVisible :: "int set \<Rightarrow> bool \<Rightarrow> Filter \<Rightarrow> PriorityFilter \<Rightarrow> Todo \<Rightarrow> bool" where
  "isVisible archived showCompleted f p t =
     (if id' t \<in> archived then False
      else if \<not> showCompleted \<and> completed t then False
      else statusOk f t \<and> priorityOk p t)"

definition filteredTodos :: "int \<Rightarrow> bool \<Rightarrow> Filter \<Rightarrow> PriorityFilter \<Rightarrow> Todo list \<Rightarrow> Todo list" where
  "filteredTodos now showCompleted f p todos =
     js_sort completedCmp (filter (isVisible (archivedIds now todos) showCompleted f p) todos)"

subsection \<open>Adding and toggling\<close>

text \<open>
  The success callback of \<^verbatim>\<open>addTodo\<close>: \<^verbatim>\<open>this.todos.update((list) => [todo, ...list])\<close>.
  It does not look into the record, so it is stated for any type of records.
\<close>

definition addTodo_next :: "'a \<Rightarrow> 'a list \<Rightarrow> 'a list" where
  "addTodo_next todo list = todo # list"

text \<open>
  The subscription of \<^verbatim>\<open>addTodo\<close> to its POST request. The HTTP client calls
  \<^verbatim>\<open>next\<close> with the body of a response whose status is from 200 to 299 (\<^verbatim>\<open>null\<close>
  when there is no body) and \<^verbatim>\<open>error\<close> otherwise; \<^verbatim>\<open>error\<close> shows a toast and
  leaves the list as it is. The list holds the records as they came from the server.
\<close>

definition addTodo_subscribe :: "response \<Rightarrow> json list \<Rightarrow> json list" where
  "addTodo_subscribe resp list =
     (case resp of
        Json code todo \<Rightarrow> if 200 \<le> code \<and> code < 300 then addTodo_next todo list else list
      | End code \<Rightarrow> if 200 \<le> code \<and> code < 300 then addTodo_next JNull list else list)"

text \<open>
  One create, from the request to the callback: the server handles the POST request at
  its clock reading \<open>now\<close>, then the client handles the response. The state is the
  client's list together with the list the server stores. In \<open>create_rounds\<close> each
  create is over before the next one starts.
\<close>

definition create_round :: "int \<Rightarrow> obj \<Rightarrow> json list \<times> obj list \<Rightarrow> json list \<times> obj list" where
  "create_round now body st =
     (let (resp, stored) = create_handler now body (snd st)
      in (addTodo_subscribe resp (fst st), stored))"

fun create_rounds :: "(int \<times> obj) list \<Rightarrow> json list \<times> obj list \<Rightarrow> json list \<times> obj list" where
  "create_rounds [] st = st"
| "create_rounds (r # rs) st = create_rounds rs (create_round (fst r) (snd r) st)"





definition toggleTodo_error :: "int \<Rightarrow> Todo \<Rightarrow> Todo list \<Rightarrow> Todo list" where
  "toggleTodo_error i todo list = map (\<lambda>t. if id' t = i then todo else t) list"

subsection \<open>Overdue todos\<close>

text \<open>
  The dates of the platform, after ECMA-262: a time value is a number of milliseconds
  since the epoch, \<open>Day\<close> is its day number, \<open>MakeDay\<close> is the day number of a year,
  a month (0 is January; months outside 0 to 11 carry into the year) and a day of the
  month (days outside the month carry on). Time values beyond the range of \<^verbatim>\<open>Date\<close>
  (about 275000 years either side of 1970) are not modelled; the dates read from the
  strings modelled below lie far inside it.
\<close>

definition msPerDay :: int where
  "msPerDay = 86400000"

definition Day :: "int \<Rightarrow> int" where
  "Day t = t div msPerDay"

definition DayFromYear :: "int \<Rightarrow> int" where
  "DayFromYear y = 365 * (y - 1970) + (y - 1969) div 4 - (y - 1901) div 100 + (y - 1601) div 400"

definition InLeapYear :: "int \<Rightarrow> bool" where
  "InLeapYear y =
     (if y mod 4 \<noteq> 0 then False else if y mod 100 \<noteq> 0 then True
      else if y mod 400 \<noteq> 0 then False else True)"

text \<open>The day within the year on which month \<open>mn\<close> (0 to 11) starts.\<close>

definition monthStartDay :: "bool \<Rightarrow> int \<Rightarrow> int" where
  "monthStartDay leap mn =
     [0, 31, 59, 90, 120, 151, 181, 212, 243, 273, 304, 334] ! nat mn
       + (if leap \<and> 2 \<le> mn then 1 else 0)"

definition MakeDay :: "int \<Rightarrow> int \<Rightarrow> int \<Rightarrow> int" where
  "MakeDay year month date =
     (let ym = year + month div 12; mn = month mod 12
      in DayFromYear ym + monthStartDay (InLeapYear ym) mn + date - 1)"

text \<open>
  The local time zone is the platform's: \<open>LocalTime\<close> turns a time value into local
  time, \<open>UTC\<close> turns a local time back into a time value.
\<close>

record timezone =
  LocalTime :: "int \<Rightarrow> int"
  UTC :: "int \<Rightarrow> int"

text \<open>
  \<^verbatim>\<open>new Date(y, m, d)\<close>, as its time value: local midnight of the day. A year from 0 to
  99 stands for 1900 plus that year.
\<close>

definition fullYear :: "int \<Rightarrow> int" where
  "fullYear y = (if 0 \<le> y \<and> y \<le> 99 then 1900 + y else y)"

definition new_Date :: "timezone \<Rightarrow> int \<Rightarrow> int \<Rightarrow> int \<Rightarrow> int" where
  "new_Date tz y m d = UTC tz (MakeDay (fullYear y) m d * msPerDay)"

text \<open>\<^verbatim>\<open>today.setHours(0, 0, 0, 0)\<close> on the date with time value \<open>t\<close>.\<close>

definition setHours0 :: "timezone \<Rightarrow> int \<Rightarrow> int" where
  "setHours0 tz t = UTC tz (Day (LocalTime tz t) * msPerDay)"

text \<open>\<^verbatim>\<open>s.split(c)\<close> for a separator of one character.\<close>

fun split_on :: "char \<Rightarrow> string \<Rightarrow> string list" where
  "split_on c [] = [[]]"
| "split_on c (x # xs) =
     (if x = c then [] # split_on c xs
      else (case split_on c xs of [] \<Rightarrow> [[x]] | w # ws \<Rightarrow> (x # w) # ws))"

text \<open>
  \<^verbatim>\<open>Number(s)\<close> is modelled on the strings that occur in the dates the server stores,
  and on no other: a blank string is 0, and a string of one to four decimal digits
  (white space around it apart) is its decimal value. On every other string the result
  is \<open>None\<close>, which says that the model gives no value there; it does not stand for
  \<^verbatim>\<open>NaN\<close> or for any other number (a sign, a fraction, an exponent, a radix prefix and
  \<^verbatim>\<open>Infinity\<close> are numbers in JavaScript).
\<close>

definition digit_value :: "char \<Rightarrow> int" where
  "digit_value c = int (of_char c) - 48"

definition decimal :: "string \<Rightarrow> int" where
  "decimal ds = foldl (\<lambda>n c. 10 * n + digit_value c) 0 ds"

definition js_Number :: "string \<Rightarrow> int option" where
  "js_Number s =
     (let t = trim s in
      if t = [] then Some 0
      else if list_all is_digit t \<and> length t \<le> 4 then Some (decimal t)
      else None)"

text \<open>
  A \<^verbatim>\<open>Date\<close> object is invalid or has a time value.
  \<^verbatim>\<open>const [y, m, d] = s.split('-').map(Number); new Date(y, m - 1, d)\<close>: with fewer
  than three parts \<^verbatim>\<open>m\<close> or \<^verbatim>\<open>d\<close> is \<^verbatim>\<open>undefined\<close> and the date is invalid,
  whatever the other parts are. The result is \<open>None\<close> where \<open>js_Number\<close> gives no
  value for one of the three parts.
\<close>

datatype date = InvalidDate | TimeValue int

definition dueDate_Date :: "timezone \<Rightarrow> string \<Rightarrow> date option" where
  "dueDate_Date tz s =
     (case split_on CHR ''-'' s of
        ys # ms # ds # rest \<Rightarrow>
          (case js_Number ys of
             None \<Rightarrow> None
           | Some y \<Rightarrow>
               (case js_Number ms of
                  None \<Rightarrow> None
                | Some m \<Rightarrow>
                    (case js_Number ds of
                       None \<Rightarrow> None
                     | Some d \<Rightarrow> Some (TimeValue (new_Date tz y (m - 1) d)))))
      | _ \<Rightarrow> Some InvalidDate)"

text \<open>\<^verbatim>\<open>date < today\<close> for a valid \<^verbatim>\<open>today\<close>: false when the date is invalid.\<close>

fun Date_less :: "date \<Rightarrow> int \<Rightarrow> bool" where
  "Date_less InvalidDate today = False"
| "Date_less (TimeValue t) today = (t < today)"

text \<open>
  The two filters of \<^verbatim>\<open>overdueIds\<close>. The second one is \<open>None\<close> where the model has
  no date for the string, and for a todo without a due date, which the first filter
  never lets through.
\<close>

definition hasDueDate :: "Todo \<Rightarrow> bool" where
  "hasDueDate t = (\<not> completed t \<and> (case dueDate t of None \<Rightarrow> False | Some s \<Rightarrow> s \<noteq> []))"

definition dueBefore :: "timezone \<Rightarrow> int \<Rightarrow> Todo \<Rightarrow> bool option" where
  "dueBefore tz today t =
     (case dueDate t of
        None \<Rightarrow> None
      | Some s \<Rightarrow>
          (case dueDate_Date tz s of
             None \<Rightarrow> None
           | Some date \<Rightarrow> Some (Date_less date today)))"

text \<open>
  \<^verbatim>\<open>overdueIds\<close> at the clock reading \<open>now\<close>: the set of ids, or \<open>None\<close> when
  the list has a due date the model has no date for.
\<close>

definition overdueIds :: "timezone \<Rightarrow> int \<Rightarrow> Todo list \<Rightarrow> int set option" where
  "overdueIds tz now todos =
     (let today = setHours0 tz now;
          candidates = filter hasDueDate todos
      in if list_all (\<lambda>t. dueBefore tz today t \<noteq> None) candidates
         then Some (set (map id' (filter (\<lambda>t. dueBefore tz today t = Some True) candidates)))
         else None)"

section \<open>Notions used in the statements\<close>

text \<open>The ids of a stored list, in order, and the records a sequence of creates makes.\<close>

definition stored_ids :: "obj list \<Rightarrow> json option list" where
  "stored_ids todos = map (\<lambda>t. get_prop t ''id'') todos"

definition created :: "(int \<times> obj) list \<Rightarrow> obj list" where
  "created reqs = map (\<lambda>r. new_todo (fst r) (snd r)) reqs"

text \<open>
  The requests of a sequence that pass the checks of the create handler, and the state
  right after the client has fetched the list: \<^verbatim>\<open>GET /api/todos\<close> answers with the
  stored list and the client sets its list to it.
\<close>

definition accepted :: "(int \<times> obj) list \<Rightarrow> (int \<times> obj) list" where
  "accepted reqs = filter (\<lambda>r. create_validate (snd r) = None) reqs"

definition fetched :: "obj list \<Rightarrow> json list \<times> obj list" where
  "fetched todos = (map JObj todos, todos)"

subsection \<open>The calendar and the time zone\<close>

text \<open>
  The calendar, for the statement about due dates: the days of a month, a date of the
  calendar, and the order of dates.
\<close>

definition DaysInMonth :: "int \<Rightarrow> int \<Rightarrow> int" where
  "DaysInMonth y m =
     (if m = 2 then (if InLeapYear y then 29 else 28)
      else if m \<in> {4, 6, 9, 11} then 30 else 31)"

definition calendar_date :: "int \<Rightarrow> int \<Rightarrow> int \<Rightarrow> bool" where
  "calendar_date y m d = (1 \<le> m \<and> m \<le> 12 \<and> 1 \<le> d \<and> d \<le> DaysInMonth y m)"

definition date_before :: "int \<times> int \<times> int \<Rightarrow> int \<times> int \<times> int \<Rightarrow> bool" where
  "date_before a b =
     (case a of (y, m, d) \<Rightarrow> case b of (y', m', d') \<Rightarrow>
        y < y' \<or> (y = y' \<and> (m < m' \<or> (m = m' \<and> d < d'))))"

text \<open>
  The year, the month and the day a date string \<^verbatim>\<open>YYYY-MM-DD\<close> names, digit by digit
  (a digit is its place among the ten digits), and the day number \<^verbatim>\<open>new Date\<close> gives
  these three numbers.
\<close>

definition date_digit :: "char \<Rightarrow> int" where
  "date_digit c = int (length (takeWhile (\<lambda>d. d \<noteq> c) ''0123456789''))"

definition date_year :: "string \<Rightarrow> int" where
  "date_year s =
     1000 * date_digit (s ! 0) + 100 * date_digit (s ! 1) + 10 * date_digit (s ! 2)
       + date_digit (s ! 3)"

definition date_month :: "string \<Rightarrow> int" where
  "date_month s = 10 * date_digit (s ! 5) + date_digit (s ! 6)"

definition date_day :: "string \<Rightarrow> int" where
  "date_day s = 10 * date_digit (s ! 8) + date_digit (s ! 9)"

definition date_read_day :: "string \<Rightarrow> int" where
  "date_read_day s = MakeDay (fullYear (date_year s)) (date_month s - 1) (date_day s)"

text \<open>Every later day starts later: the property of a time zone the statement needs.\<close>

definition midnights_increase :: "timezone \<Rightarrow> bool" where
  "midnights_increase tz = (\<forall>D D'. D < D' \<longrightarrow> UTC tz (D * msPerDay) < UTC tz (D' * msPerDay))"

text \<open>A zone at a fixed offset from UTC.\<close>

definition fixed_zone :: "int \<Rightarrow> timezone" where
  "fixed_zone tza = \<lparr>LocalTime = (\<lambda>t. t + tza), UTC = (\<lambda>t. t - tza)\<rparr>"

subsection \<open>Example data\<close>

definition todo_a :: obj where
  "todo_a = [(''id'', JNum 1), (''text'', JStr ''a''), (''completed'', JBool False),
             (''priority'', JStr ''medium''), (''dueDate'', JNull), (''completedAt'', JNull)]"

definition todo_b :: obj where
  "todo_b = [(''id'', JNum 2), (''text'', JStr ''b''), (''completed'', JBool False),
             (''priority'', JStr ''medium''), (''dueDate'', JNull), (''completedAt'', JNull)]"

definition body_a :: obj where
  "body_a = [(''text'', JStr ''a'')]"

definition body_b :: obj where
  "body_b = [(''text'', JStr ''b'')]"

definition open_todo :: Todo where
  "open_todo = \<lparr>id' = 1, text' = ''a'', completed = False, priority = Medium,
                 dueDate = None, completedAt = None\<rparr>"

definition done_todo :: Todo where
  "done_todo = \<lparr>id' = 2, text' = ''b'', completed = True, priority = High,
                 dueDate = None, completedAt = Some 1000\<rparr>"

definition epoch_todo :: Todo where
  "epoch_todo = \<lparr>id' = 3, text' = ''c'', completed = True, priority = Low,
                  dueDate = None, completedAt = Some 0\<rparr>"

definition due_todo :: Todo where
  "due_todo = \<lparr>id' = 4, text' = ''d'', completed = False, priority = Medium,
                dueDate = Some ''2024-03-01'', completedAt = None\<rparr>"

definition today_todo :: Todo where
  "today_todo = \<lparr>id' = 5, text' = ''e'', completed = False, priority = Medium,
                  dueDate = Some ''2024-03-02'', completedAt = None\<rparr>"

definition feb30_todo :: Todo where
  "feb30_todo = \<lparr>id' = 6, text' = ''f'', completed = False, priority = Medium,
                  dueDate = Some ''2024-02-30'', completedAt = None\<rparr>"

definition year99_todo :: Todo where
  "year99_todo = \<lparr>id' = 7, text' = ''g'', completed = False, priority = Medium,
                   dueDate = Some ''0099-12-31'', completedAt = None\<rparr>"

definition no_parse :: "string \<Rightarrow> json option" where
  "no_parse raw = None"

definition empty_fs :: "string \<Rightarrow> fs_entry" where
  "empty_fs path = NoFile"

definition failing_blobs :: "string \<Rightarrow> string \<Rightarrow> blob_get" where
  "failing_blobs name key = Rejected"

definition empty_blobs :: "string \<Rightarrow> string \<Rightarrow> blob_get" where
  "empty_blobs name key = Resolved None"

section \<open>Properties of objects\<close>

lemma get_set_prop: "get_prop (set_prop ob k v) k' = (if k' = k then Some v else get_prop ob k')"
  by (induction ob) (auto simp: get_prop_def)

lemma set_prop_same: "get_prop ob k = Some v \<Longrightarrow> set_prop ob k v = ob"
  by (induction ob) (auto simp: get_prop_def split: if_splits)

lemma keys_set_prop: "fst ` set (set_prop ob k v) = insert k (fst ` set ob)"
  by (induction ob) auto

lemma distinct_set_prop: "distinct (map fst ob) \<Longrightarrow> distinct (map fst (set_prop ob k v))"
  by (induction ob) (auto simp: keys_set_prop)

lemma get_prop_None: "k \<notin> fst ` set ob \<Longrightarrow> get_prop ob k = None"
  by (simp add: get_prop_def map_of_eq_None_iff)

lemma get_prop_Cons: "get_prop ((k0, v0) # ob) k = (if k = k0 then Some v0 else get_prop ob k)"
  by (simp add: get_prop_def)

lemma has_prop_get: "has_prop k ob = (get_prop ob k \<noteq> None)"
  by (simp add: has_prop_def get_prop_def split: option.splits)

lemma get_prop_filter:
  "P k \<Longrightarrow> get_prop (filter (\<lambda>kv. P (fst kv)) body) k = get_prop body k"
  by (induction body) (auto simp: get_prop_def)

lemma spread_Nil: "spread a [] = a"
  by (simp add: spread_def)

lemma spread_Cons: "spread a (kv # b) = spread (set_prop a (fst kv) (snd kv)) b"
  by (simp add: spread_def)

lemma get_spread_other: "k \<notin> fst ` set b \<Longrightarrow> get_prop (spread a b) k = get_prop a k"
  unfolding spread_def
  by (induction b arbitrary: a) (auto simp: get_set_prop)

text \<open>A spread object has the properties of the second object, and the others of the first.\<close>

lemma get_spread:
  "distinct (map fst b) \<Longrightarrow>
   get_prop (spread a b) k = (case get_prop b k of None \<Rightarrow> get_prop a k | Some v \<Rightarrow> Some v)"
proof (induction b arbitrary: a)
  case Nil
  then show ?case by (simp add: spread_def get_prop_def)
next
  case (Cons kv b)
  obtain k0 v0 where kv: "kv = (k0, v0)" by (cases kv)
  from Cons.prems kv have fresh: "k0 \<notin> fst ` set b" and dist: "distinct (map fst b)"
    by simp_all
  show ?case
    using Cons.IH [OF dist, of "set_prop a k0 v0"] get_prop_None [OF fresh]
    by (simp add: kv spread_Cons get_prop_Cons get_set_prop split: option.splits)
qed

section \<open>Properties of the update handler\<close>

lemma findIndex_Some: "findIndex p xs = Some i \<Longrightarrow> i < length xs \<and> p (xs ! i)"
  by (induction xs arbitrary: i) (auto split: if_splits option.splits)

lemma keys_collect_aux:
  "fst ` set (foldl (\<lambda>update field. case g field of None \<Rightarrow> update | Some v \<Rightarrow> set_prop update field v) u fs)
     \<subseteq> fst ` set u \<union> set fs"
proof (induction fs arbitrary: u)
  case Nil
  then show ?case by simp
next
  case (Cons f fs)
  show ?case
  proof (cases "g f")
    case None
    then show ?thesis using Cons.IH [of u] by auto
  next
    case (Some v)
    then show ?thesis using Cons.IH [of "set_prop u f v"] by (auto simp: keys_set_prop)
  qed
qed

lemma keys_collect_update: "fst ` set (collect_update body) \<subseteq> set ALLOWED_UPDATE_FIELDS"
  using keys_collect_aux [of "get_prop body" "[]" ALLOWED_UPDATE_FIELDS]
  by (simp add: collect_update_def)

lemma distinct_collect_aux:
  "distinct (map fst u) \<Longrightarrow>
   distinct (map fst (foldl (\<lambda>update field. case g field of None \<Rightarrow> update | Some v \<Rightarrow> set_prop update field v) u fs))"
  by (induction fs arbitrary: u) (simp_all add: distinct_set_prop split: option.splits)

lemma distinct_collect_update: "distinct (map fst (collect_update body))"
  by (simp add: collect_update_def distinct_collect_aux)

lemma get_collect_aux:
  "get_prop (foldl (\<lambda>update field. case g field of None \<Rightarrow> update | Some v \<Rightarrow> set_prop update field v) u fs) f
     = (if f \<in> set fs then (case g f of None \<Rightarrow> get_prop u f | Some v \<Rightarrow> Some v) else get_prop u f)"
  by (induction fs arbitrary: u) (simp_all add: get_set_prop split: option.splits)

lemma get_collect_update:
  "f \<in> set ALLOWED_UPDATE_FIELDS \<Longrightarrow> get_prop (collect_update body) f = get_prop body f"
  using get_collect_aux [of "get_prop body" "[]" ALLOWED_UPDATE_FIELDS f]
  by (simp add: collect_update_def get_prop_def split: option.splits)

lemma collect_update_filter:
  "collect_update (filter (\<lambda>kv. fst kv \<in> set ALLOWED_UPDATE_FIELDS) body) = collect_update body"
  by (simp add: collect_update_def ALLOWED_UPDATE_FIELDS_def
      get_prop_filter [where P = "\<lambda>k. k \<in> set [''text'', ''completed'', ''completedAt'', ''priority'', ''dueDate'']", simplified])

lemma put_validate_filter:
  "put_validate (filter (\<lambda>kv. fst kv \<in> set ALLOWED_UPDATE_FIELDS) body) = put_validate body"
  by (simp add: put_validate_def Let_def has_prop_get ALLOWED_UPDATE_FIELDS_def
      get_prop_filter [where P = "\<lambda>k. k \<in> set [''text'', ''completed'', ''completedAt'', ''priority'', ''dueDate'']", simplified])

lemma collect_update_empty:
  "\<forall>f\<in>set ALLOWED_UPDATE_FIELDS. \<not> has_prop f body \<Longrightarrow> collect_update body = []"
  by (simp add: collect_update_def ALLOWED_UPDATE_FIELDS_def has_prop_get)

lemma put_validate_empty:
  "\<forall>f\<in>set ALLOWED_UPDATE_FIELDS. \<not> has_prop f body \<Longrightarrow> put_validate body = None"
  by (simp add: put_validate_def ALLOWED_UPDATE_FIELDS_def has_prop_get)

text \<open>The checks of the handler never look at \<^verbatim>\<open>completed\<close> or \<^verbatim>\<open>completedAt\<close>.\<close>

lemma put_validate_completed:
  "put_validate (set_prop (set_prop body ''completed'' v) ''completedAt'' w) = put_validate body"
  by (simp add: put_validate_def Let_def has_prop_get get_set_prop)

section \<open>Claims about the server\<close>

text \<open>With distinct ids stored, the map of the reorder handler finds every stored todo by its id.\<close>

lemma todoMap_foldl:
  "foldl (\<lambda>m t. m(get_prop t ''id'' \<mapsto> t)) m todos
     = m ++ map_of (rev (map (\<lambda>t. (get_prop t ''id'', t)) todos))"
  by (induction todos arbitrary: m) (simp_all add: map_add_upd_left fun_upd_def map_add_def fun_eq_iff split: option.splits)

lemma todoMap_stored:
  assumes dist: "distinct (stored_ids todos)" and t: "t \<in> set todos"
  shows "todoMap todos (get_prop t ''id'') = Some t"
proof -
  let ?kv = "rev (map (\<lambda>t. (get_prop t ''id'', t)) todos)"
  have "distinct (map fst ?kv)"
    using dist by (simp add: stored_ids_def rev_map [symmetric] comp_def)
  moreover have "(get_prop t ''id'', t) \<in> set ?kv"
    using t by auto
  ultimately have "map_of ?kv (get_prop t ''id'') = Some t"
    by (rule map_of_is_SomeI)
  then show ?thesis
    by (simp add: todoMap_def todoMap_foldl)
qed

lemma filter_Boolean_Some: "filter_Boolean (map (\<lambda>x. Some (f x)) xs) = map f xs"
  by (induction xs) simp_all

text \<open>A reorder request answered 400 leaves the stored list as it was.\<close>

lemma reorder_answer_400_keeps_store:
  "status (fst (reorder_handler body todos)) = 400 \<Longrightarrow> snd (reorder_handler body todos) = todos"
  by (auto simp: reorder_handler_def Let_def err_def split: option.splits json.splits if_splits)

text \<open>
  A sequence of distinct ids that are exactly the stored ids is accepted, and the stored
  list becomes the stored todos in the order of the sequence.
\<close>

lemma reorder_permutation_accepted:
  assumes dist: "distinct (stored_ids todos)"
    and nums: "list_all is_number ids"
    and perm: "distinct ids" "set (map Some ids) = set (stored_ids todos)"
  shows "\<exists>reordered.
           reorder_handler [(''ids'', JArr ids)] todos = (Json 200 (JArr (map JObj reordered)), reordered)
           \<and> stored_ids reordered = map Some ids
           \<and> set reordered = set todos \<and> length reordered = length todos"
proof -
  define pick where "pick i = the (todoMap todos (Some i))" for i
  have look: "todoMap todos (Some i) = Some (pick i)"
    and pick: "pick i \<in> set todos \<and> get_prop (pick i) ''id'' = Some i" if "i \<in> set ids" for i
  proof -
    from that perm(2) have "Some i \<in> set (stored_ids todos)" by auto
    then obtain t where t: "t \<in> set todos" and ti: "get_prop t ''id'' = Some i"
      by (auto simp: stored_ids_def)
    from todoMap_stored [OF dist t] ti have found: "todoMap todos (Some i) = Some t"
      by simp
    then have "pick i = t" by (simp add: pick_def)
    with found t ti show "todoMap todos (Some i) = Some (pick i)"
      and "pick i \<in> set todos \<and> get_prop (pick i) ''id'' = Some i"
      by simp_all
  qed
  let ?r = "map pick ids"
  have found: "filter_Boolean (map (\<lambda>i. todoMap todos (Some i)) ids) = ?r"
  proof -
    have m: "map (\<lambda>i. todoMap todos (Some i)) ids = map (\<lambda>i. Some (pick i)) ids"
      using look by simp
    show ?thesis unfolding m by (rule filter_Boolean_Some)
  qed
  have len: "length ids = length todos"
  proof -
    have "distinct (map Some ids)" using perm(1) by (simp add: distinct_map)
    then have "card (set (map Some ids)) = length ids"
      using distinct_card [of "map Some ids"] by simp
    moreover have "card (set (stored_ids todos)) = length todos"
      using distinct_card [OF dist] by (simp add: stored_ids_def)
    ultimately show ?thesis using perm(2) by simp
  qed
  have ids_r: "stored_ids ?r = map Some ids"
    using pick by (simp add: stored_ids_def)
  have set_r: "set ?r = set todos"
  proof
    show "set ?r \<subseteq> set todos" using pick by auto
    show "set todos \<subseteq> set ?r"
    proof
      fix t assume t: "t \<in> set todos"
      then have "get_prop t ''id'' \<in> set (map Some ids)"
        using perm(2) by (auto simp: stored_ids_def)
      then obtain i where i: "i \<in> set ids" and ti: "get_prop t ''id'' = Some i" by auto
      from todoMap_stored [OF dist t] look [OF i] ti have "pick i = t" by simp
      with i show "t \<in> set ?r" by auto
    qed
  qed
  have "reorder_handler [(''ids'', JArr ids)] todos = (Json 200 (JArr (map JObj ?r)), ?r)"
    using nums by (simp add: reorder_handler_def get_prop_def found len)
  with ids_r set_r len show ?thesis by auto
qed

text \<open>
  C1. The reorder handler is meant to refuse every id sequence that is not a permutation
  of the stored ids, and to leave the store untouched then. It compares only the number
  of todos found with the number stored: with todos 1 and 2 stored, the sequence
  \<open>[1, 1]\<close> is answered 200 and the store then holds todo 1 twice and todo 2 no more.
\<close>

theorem reorder_accepts_duplicate_id:
  "reorder_handler [(''ids'', JArr [JNum 1, JNum 1])] [todo_a, todo_b]
     = (Json 200 (JArr [JObj todo_a, JObj todo_a]), [todo_a, todo_a])"
  by (simp add: reorder_handler_def get_prop_def todoMap_def todo_a_def todo_b_def)

lemma create_all_valid:
  "list_all (\<lambda>r. create_validate (snd r) = None) reqs \<Longrightarrow>
   create_all reqs todos
     = (map (\<lambda>r. Json 201 (JObj (new_todo (fst r) (snd r)))) reqs, todos @ created reqs)"
  by (induction reqs arbitrary: todos) (simp_all add: create_handler_def created_def)

lemma new_todo_id: "get_prop (new_todo now body) ''id'' = Some (JNum now)"
  by (simp add: new_todo_def get_prop_def)

lemma stored_ids_created: "stored_ids (created reqs) = map (\<lambda>r. Some (JNum (fst r))) reqs"
  by (simp add: stored_ids_def created_def new_todo_id)

lemma sorted_wrt_less_nth:
  "sorted_wrt (<) (xs :: int list) \<Longrightarrow> k < length xs \<Longrightarrow> xs ! k \<notin> set (take k xs)"
proof
  assume sorted: "sorted_wrt (<) xs" and k: "k < length xs" and mem: "xs ! k \<in> set (take k xs)"
  from mem obtain j where j: "j < k" and eq: "xs ! j = xs ! k"
    using k by (auto simp: in_set_conv_nth)
  from sorted j k have "xs ! j < xs ! k"
    by (simp add: sorted_wrt_iff_nth_less)
  with eq show False by simp
qed

lemma create_validate_body_a: "create_validate body_a = None"
  by (simp add: create_validate_def body_a_def get_prop_def trim_def is_space_def
      MAX_TEXT_LENGTH_def create_priority_def create_dueDate_def VALID_PRIORITIES_def)

lemma create_validate_body_b: "create_validate body_b = None"
  by (simp add: create_validate_def body_b_def get_prop_def trim_def is_space_def
      MAX_TEXT_LENGTH_def create_priority_def create_dueDate_def VALID_PRIORITIES_def)

lemma new_todo_body_a: "new_todo 1 body_a = todo_a"
  by (simp add: new_todo_def body_a_def get_prop_def trim_def is_space_def
      create_priority_def create_dueDate_def todo_a_def)

lemma new_todo_body_b: "new_todo 2 body_b = todo_b"
  by (simp add: new_todo_def body_b_def get_prop_def trim_def is_space_def
      create_priority_def create_dueDate_def todo_b_def)

text \<open>
  C2, as the code has it. The id of a new record is the clock reading \<^verbatim>\<open>Date.now()\<close>
  of its request, and nothing compares it with the ids stored. For every sequence of
  valid create requests of one user, every request is answered 201 with its record, the
  records are appended to the end of the stored list in creation order, and the ids are
  the clock readings in that order. When the clock readings strictly increase and none of
  them is an id stored before, each id is new among the ids stored when its record is
  created, and the ids strictly increase as the readings do.
\<close>

theorem create_ids_follow_clock:
  assumes valid: "list_all (\<lambda>r. create_validate (snd r) = None) reqs"
  shows "create_all reqs todos
           = (map (\<lambda>r. Json 201 (JObj (new_todo (fst r) (snd r)))) reqs, todos @ created reqs)
         \<and> stored_ids (created reqs) = map (\<lambda>r. Some (JNum (fst r))) reqs
         \<and> (sorted_wrt (<) (map fst reqs)
              \<and> (\<forall>r \<in> set reqs. Some (JNum (fst r)) \<notin> set (stored_ids todos))
            \<longrightarrow> (\<forall>k < length reqs.
                   stored_ids (created reqs) ! k \<notin> set (stored_ids (todos @ take k (created reqs)))))"
proof -
  have "stored_ids (created reqs) ! k \<notin> set (stored_ids (todos @ take k (created reqs)))"
    if incr: "sorted_wrt (<) (map fst reqs)"
      and fresh: "\<forall>r \<in> set reqs. Some (JNum (fst r)) \<notin> set (stored_ids todos)"
      and k: "k < length reqs" for k
  proof -
    have idk: "stored_ids (created reqs) ! k = Some (JNum (fst (reqs ! k)))"
      using k by (simp add: stored_ids_created)
    have old: "Some (JNum (fst (reqs ! k))) \<notin> set (stored_ids todos)"
      using fresh k by simp
    have "map fst reqs ! k \<notin> set (take k (map fst reqs))"
      using incr k by (intro sorted_wrt_less_nth) simp_all
    then have "fst (reqs ! k) \<notin> fst ` set (take k reqs)"
      using k by (simp add: take_map)
    then have new: "Some (JNum (fst (reqs ! k))) \<notin> set (stored_ids (take k (created reqs)))"
      by (auto simp: stored_ids_def created_def take_map new_todo_id)
    have "set (stored_ids (todos @ take k (created reqs)))
            = set (stored_ids todos) \<union> set (stored_ids (take k (created reqs)))"
      by (simp add: stored_ids_def)
    then show ?thesis
      using old new idk by simp
  qed
  then show ?thesis
    using create_all_valid [OF valid] stored_ids_created by blast
qed

theorem create_ids_follow_clock_witness:
  "list_all (\<lambda>r. create_validate (snd r) = None) [(1, body_a), (2, body_b)]
   \<and> create_all [(1, body_a), (2, body_b)] []
       = ([Json 201 (JObj todo_a), Json 201 (JObj todo_b)], [todo_a, todo_b])
   \<and> stored_ids [todo_a, todo_b] = [Some (JNum 1), Some (JNum 2)]
   \<and> stored_ids [todo_a, todo_b] ! 1 \<notin> set (stored_ids [todo_a])"
proof -
  have valid: "list_all (\<lambda>r. create_validate (snd r) = None) [(1, body_a), (2, body_b)]"
    by (simp add: create_validate_body_a create_validate_body_b)
  have made: "created [(1, body_a), (2, body_b)] = [todo_a, todo_b]"
    by (simp add: created_def new_todo_body_a new_todo_body_b)
  have one: "(1::nat) < length [(1::int, body_a), (2, body_b)]"
    by simp
  from create_ids_follow_clock [OF valid, of "[]"] one
  have "create_all [(1, body_a), (2, body_b)] []
          = ([Json 201 (JObj todo_a), Json 201 (JObj todo_b)], [todo_a, todo_b])"
    and "stored_ids [todo_a, todo_b] = [Some (JNum 1), Some (JNum 2)]"
    and "stored_ids [todo_a, todo_b] ! 1 \<notin> set (stored_ids [todo_a])"
    by (simp_all add: made new_todo_body_a new_todo_body_b stored_ids_def)
  with valid show ?thesis by blast
qed

text \<open>
  Two valid creates handled within one millisecond: the second record gets the id of
  the first, which the list already holds.
\<close>

theorem create_same_clock_counterexample:
  "create_validate body_a = None
   \<and> create_handler 5 body_a [] = (Json 201 (JObj (new_todo 5 body_a)), [new_todo 5 body_a])
   \<and> fst (create_handler 5 body_a [new_todo 5 body_a]) = Json 201 (JObj (new_todo 5 body_a))
   \<and> get_prop (new_todo 5 body_a) ''id'' \<in> set (stored_ids [new_todo 5 body_a])"
  by (simp add: create_handler_def create_validate_body_a stored_ids_def)

text \<open>
  C3. On an existing record, the update handler ignores every field of the body outside
  the allow-list (the answer and the stored list are those for the body without them),
  changes no other record, changes no property of the record outside the allow-list,
  keeps its id, and with a body that has no allow-listed field answers 200 with the
  record as it was and stores the list unchanged.
\<close>

theorem put_changes_only_allowed_fields:
  assumes found: "findIndex (\<lambda>t. get_prop t ''id'' = Some (JNum i)) todos = Some idx"
  shows "put_handler (Some i) body todos
           = put_handler (Some i) (filter (\<lambda>kv. fst kv \<in> set ALLOWED_UPDATE_FIELDS) body) todos
         \<and> length (snd (put_handler (Some i) body todos)) = length todos
         \<and> (\<forall>j < length todos. j \<noteq> idx \<longrightarrow> snd (put_handler (Some i) body todos) ! j = todos ! j)
         \<and> (\<forall>k. k \<notin> set ALLOWED_UPDATE_FIELDS \<longrightarrow>
               get_prop (snd (put_handler (Some i) body todos) ! idx) k = get_prop (todos ! idx) k)
         \<and> get_prop (snd (put_handler (Some i) body todos) ! idx) ''id'' = Some (JNum i)
         \<and> ((\<forall>f \<in> set ALLOWED_UPDATE_FIELDS. \<not> has_prop f body) \<longrightarrow>
               put_handler (Some i) body todos = (Json 200 (JObj (todos ! idx)), todos))"
proof -
  from findIndex_Some [OF found]
  have idx: "idx < length todos" and old_id: "get_prop (todos ! idx) ''id'' = Some (JNum i)"
    by simp_all
  let ?new = "set_prop (spread (todos ! idx) (collect_update body)) ''id'' (JNum i)"
  have result: "snd (put_handler (Some i) body todos) = todos \<or>
                snd (put_handler (Some i) body todos) = todos[idx := ?new]"
    by (simp add: put_handler_def found Let_def split: option.splits)
  have ignored: "put_handler (Some i) body todos
           = put_handler (Some i) (filter (\<lambda>kv. fst kv \<in> set ALLOWED_UPDATE_FIELDS) body) todos"
    by (simp add: put_handler_def put_validate_filter collect_update_filter cong: option.case_cong)
  have frame: "get_prop ?new k = get_prop (todos ! idx) k" if "k \<notin> set ALLOWED_UPDATE_FIELDS" for k
  proof -
    from that keys_collect_update [of body] have "k \<notin> fst ` set (collect_update body)"
      by blast
    then have "get_prop (spread (todos ! idx) (collect_update body)) k = get_prop (todos ! idx) k"
      by (rule get_spread_other)
    then show ?thesis
      using old_id by (simp add: get_set_prop)
  qed
  have new_id: "get_prop ?new ''id'' = Some (JNum i)"
    by (simp add: get_set_prop)
  have unchanged: "put_handler (Some i) body todos = (Json 200 (JObj (todos ! idx)), todos)"
    if none: "\<forall>f \<in> set ALLOWED_UPDATE_FIELDS. \<not> has_prop f body"
  proof -
    have "?new = todos ! idx"
      using old_id by (simp add: collect_update_empty [OF none] spread_Nil set_prop_same)
    then show ?thesis
      by (simp add: put_handler_def found put_validate_empty [OF none]
          collect_update_empty [OF none] spread_Nil list_update_same_conv idx Let_def)
  qed
  have len: "length (snd (put_handler (Some i) body todos)) = length todos"
    using result by auto
  have others: "\<forall>j < length todos. j \<noteq> idx \<longrightarrow> snd (put_handler (Some i) body todos) ! j = todos ! j"
    using result by auto
  have fields: "\<forall>k. k \<notin> set ALLOWED_UPDATE_FIELDS \<longrightarrow>
               get_prop (snd (put_handler (Some i) body todos) ! idx) k = get_prop (todos ! idx) k"
    using result idx frame by auto
  have ident: "get_prop (snd (put_handler (Some i) body todos) ! idx) ''id'' = Some (JNum i)"
    using result idx new_id old_id by auto
  show ?thesis
    using ignored len others fields ident unchanged by blast
qed

theorem put_changes_only_allowed_fields_witness:
  "findIndex (\<lambda>t. get_prop t ''id'' = Some (JNum 2)) [todo_a, todo_b] = Some 1
   \<and> put_handler (Some 2) [(''id'', JNum 7), (''colour'', JStr ''red'')] [todo_a, todo_b]
       = (Json 200 (JObj todo_b), [todo_a, todo_b])"
proof -
  have found: "findIndex (\<lambda>t. get_prop t ''id'' = Some (JNum 2)) [todo_a, todo_b] = Some 1"
    by (simp add: todo_a_def todo_b_def get_prop_def)
  have none: "\<forall>f \<in> set ALLOWED_UPDATE_FIELDS.
                \<not> has_prop f [(''id'', JNum 7), (''colour'', JStr ''red'')]"
    by (simp add: ALLOWED_UPDATE_FIELDS_def has_prop_def)
  from put_changes_only_allowed_fields [OF found, of "[(''id'', JNum 7), (''colour'', JStr ''red'')]"] none
  have "put_handler (Some 2) [(''id'', JNum 7), (''colour'', JStr ''red'')] [todo_a, todo_b]
          = (Json 200 (JObj ([todo_a, todo_b] ! 1)), [todo_a, todo_b])"
    by blast
  then have "put_handler (Some 2) [(''id'', JNum 7), (''colour'', JStr ''red'')] [todo_a, todo_b]
          = (Json 200 (JObj todo_b), [todo_a, todo_b])"
    by simp
  with found show ?thesis by blast
qed

text \<open>
  C8. The update handler checks only \<^verbatim>\<open>text\<close>, \<^verbatim>\<open>priority\<close> and \<^verbatim>\<open>dueDate\<close>. For
  every existing record, every body that passes these checks and every two JSON values
  \<open>v\<close> and \<open>w\<close>, the body with \<^verbatim>\<open>completed\<close> set to \<open>v\<close> and \<^verbatim>\<open>completedAt\<close> set to
  \<open>w\<close> is answered 200, and the record stored and returned has exactly these values
  in the two fields, whatever their types.
\<close>

theorem put_stores_completed_verbatim:
  assumes found: "findIndex (\<lambda>t. get_prop t ''id'' = Some (JNum i)) todos = Some idx"
    and valid: "put_validate body = None"
  shows "\<exists>todo'. put_handler (Some i) (set_prop (set_prop body ''completed'' v) ''completedAt'' w) todos
                    = (Json 200 (JObj todo'), todos[idx := todo'])
            \<and> get_prop todo' ''completed'' = Some v
            \<and> get_prop todo' ''completedAt'' = Some w"
proof -
  let ?body = "set_prop (set_prop body ''completed'' v) ''completedAt'' w"
  let ?new = "set_prop (spread (todos ! idx) (collect_update ?body)) ''id'' (JNum i)"
  have "put_validate ?body = None"
    using valid by (simp add: put_validate_completed)
  then have "put_handler (Some i) ?body todos = (Json 200 (JObj ?new), todos[idx := ?new])"
    by (simp add: put_handler_def found Let_def)
  moreover have "get_prop ?new ''completed'' = Some v"
    by (simp add: get_set_prop get_spread distinct_collect_update get_collect_update
        ALLOWED_UPDATE_FIELDS_def)
  moreover have "get_prop ?new ''completedAt'' = Some w"
    by (simp add: get_set_prop get_spread distinct_collect_update get_collect_update
        ALLOWED_UPDATE_FIELDS_def)
  ultimately show ?thesis by blast
qed

theorem put_stores_completed_verbatim_witness:
  "findIndex (\<lambda>t. get_prop t ''id'' = Some (JNum 1)) [todo_a] = Some 0
   \<and> put_validate [] = None
   \<and> (\<exists>todo'. put_handler (Some 1) [(''completed'', JStr ''yes''), (''completedAt'', JBool True)] [todo_a]
                  = (Json 200 (JObj todo'), [todo'])
          \<and> get_prop todo' ''completed'' = Some (JStr ''yes'')
          \<and> get_prop todo' ''completedAt'' = Some (JBool True))"
proof -
  have found: "findIndex (\<lambda>t. get_prop t ''id'' = Some (JNum 1)) [todo_a] = Some 0"
    by (simp add: todo_a_def get_prop_def)
  have valid: "put_validate [] = None"
    by (simp add: put_validate_def has_prop_def get_prop_def)
  from put_stores_completed_verbatim [OF found valid, of "JStr ''yes''" "JBool True"]
  have "\<exists>todo'. put_handler (Some 1) [(''completed'', JStr ''yes''), (''completedAt'', JBool True)] [todo_a]
                  = (Json 200 (JObj todo'), [todo'])
          \<and> get_prop todo' ''completed'' = Some (JStr ''yes'')
          \<and> get_prop todo' ''completedAt'' = Some (JBool True)"
    by simp
  with found valid show ?thesis by blast
qed


section \<open>Claims about the store\<close>

text \<open>
  C10, as the code has it. Both reads of both backends return the empty list when the
  file or blob is absent and when its content is not parseable JSON (the local reads
  also when the file cannot be read). The local reads always return. The reads of the
  blob backend call the blob service before their \<^verbatim>\<open>try\<close> block, so they throw to the
  caller exactly when that call fails; the handlers answer 500 then.
\<close>

theorem store_reads_empty_or_store_failure:
  "((\<exists>e. readUsers IS_NETLIFY parse fs blobs = Inl e)
      = (IS_NETLIFY \<and> blobs ''app-data'' ''users'' = Rejected))
   \<and> ((\<exists>e. readTodos IS_NETLIFY parse fs blobs username = Inl e)
      = (IS_NETLIFY \<and> blobs ''todos'' username = Rejected))
   \<and> (fs USERS_FILE = NoFile \<or> fs USERS_FILE = Unreadable
        \<or> (\<exists>raw. fs USERS_FILE = File raw \<and> parse raw = None)
      \<longrightarrow> readUsers False parse fs blobs = Inr (JArr []))
   \<and> (fs (todos_path username) = NoFile \<or> fs (todos_path username) = Unreadable
        \<or> (\<exists>raw. fs (todos_path username) = File raw \<and> parse raw = None)
      \<longrightarrow> readTodos False parse fs blobs username = Inr (JArr []))
   \<and> (blobs ''app-data'' ''users'' = Resolved None
        \<or> (\<exists>raw. blobs ''app-data'' ''users'' = Resolved (Some raw) \<and> parse raw = None)
      \<longrightarrow> readUsers True parse fs blobs = Inr (JArr []))
   \<and> (blobs ''todos'' username = Resolved None
        \<or> (\<exists>raw. blobs ''todos'' username = Resolved (Some raw) \<and> parse raw = None)
      \<longrightarrow> readTodos True parse fs blobs username = Inr (JArr []))"
proof -
  have local_users: "\<exists>v. readUsersLocal parse fs = Inr v"
    by (simp add: readUsersLocal_def read_or_empty_def JSON_parse_def
        split: sum.splits option.splits)
  have local_todos: "\<exists>v. readTodosLocal parse fs username = Inr v"
    by (simp add: readTodosLocal_def read_or_empty_def JSON_parse_def
        split: sum.splits option.splits)
  have blob: "(\<exists>e. read_blob parse got = Inl e) = (got = Rejected)" for got
    by (simp add: read_blob_def JSON_parse_def split: blob_get.splits option.splits)
  have raise_users: "(\<exists>e. readUsers IS_NETLIFY parse fs blobs = Inl e)
      = (IS_NETLIFY \<and> blobs ''app-data'' ''users'' = Rejected)"
    using local_users by (auto simp: readUsers_def readUsersNetlify_def blob)
  have raise_todos: "(\<exists>e. readTodos IS_NETLIFY parse fs blobs username = Inl e)
      = (IS_NETLIFY \<and> blobs ''todos'' username = Rejected)"
    using local_todos by (auto simp: readTodos_def readTodosNetlify_def blob)
  have empty_local: "fs path = NoFile \<or> fs path = Unreadable
        \<or> (\<exists>raw. fs path = File raw \<and> parse raw = None)
      \<longrightarrow> (if \<not> existsSync fs path then Inr (JArr []) else read_or_empty parse fs path)
            = Inr (JArr [])" for path
    by (auto simp: existsSync_def read_or_empty_def readFileSync_def JSON_parse_def)
  have empty_blob: "got = Resolved None \<or> (\<exists>raw. got = Resolved (Some raw) \<and> parse raw = None)
      \<longrightarrow> read_blob parse got = Inr (JArr [])" for got
    by (auto simp: read_blob_def JSON_parse_def)
  show ?thesis
    using raise_users raise_todos empty_local [of USERS_FILE] empty_local [of "todos_path username"]
      empty_blob [of "blobs ''app-data'' ''users''"] empty_blob [of "blobs ''todos'' username"]
    by (simp add: readUsers_def readTodos_def readUsersLocal_def readTodosLocal_def
        readUsersNetlify_def readTodosNetlify_def)
qed

theorem store_reads_empty_or_store_failure_witness:
  "readTodos False no_parse empty_fs empty_blobs ''alice'' = Inr (JArr [])
   \<and> readTodos True no_parse empty_fs empty_blobs ''alice'' = Inr (JArr [])
   \<and> readUsers False no_parse empty_fs empty_blobs = Inr (JArr [])
   \<and> readUsers True no_parse empty_fs empty_blobs = Inr (JArr [])"
  using store_reads_empty_or_store_failure [of False no_parse empty_fs empty_blobs "''alice''"]
    store_reads_empty_or_store_failure [of True no_parse empty_fs empty_blobs "''alice''"]
  by (simp add: empty_fs_def empty_blobs_def)

text \<open>A read of the blob backend while the blob service fails throws to its caller.\<close>

theorem store_read_raises_counterexample:
  "readTodos True no_parse empty_fs failing_blobs ''alice'' = Inl StoreError
   \<and> readUsers True no_parse empty_fs failing_blobs = Inl StoreError"
  by (simp add: readTodos_def readUsers_def readTodosNetlify_def readUsersNetlify_def
      read_blob_def failing_blobs_def)

section \<open>Claims about the client\<close>






text \<open>
  C6, as the code has it. The test \<^verbatim>\<open>!!t.completedAt\<close> is false for \<^verbatim>\<open>null\<close> and
  also for the timestamp 0. For every list and every \<open>now\<close>, the archived ids are
  exactly the ids of the completed todos whose \<^verbatim>\<open>completedAt\<close> is neither null nor 0
  and lies more than 5 days (in milliseconds) before \<open>now\<close>. At the boundary, a
  completed todo with \<^verbatim>\<open>completedAt = now - 5 days - 1 ms\<close> is archived unless that
  timestamp is 0, and one with \<^verbatim>\<open>completedAt = now - 5 days + 1 ms\<close> is not.
\<close>

theorem archivedIds_threshold:
  "archivedIds now todos
     = {id' t | t. t \<in> set todos \<and> completed t
          \<and> (\<exists>c. completedAt t = Some c \<and> c \<noteq> 0 \<and> now - c > 5 * 24 * 60 * 60 * 1000)}
   \<and> (t \<in> set todos \<and> completed t \<and> completedAt t = Some (now - 5 * 24 * 60 * 60 * 1000 - 1)
        \<and> now \<noteq> 5 * 24 * 60 * 60 * 1000 + 1
      \<longrightarrow> id' t \<in> archivedIds now todos)
   \<and> (completedAt t = Some (now - 5 * 24 * 60 * 60 * 1000 + 1) \<longrightarrow> id' t \<notin> archivedIds now [t])"
proof -
  have ids: "archivedIds now todos
     = {id' t | t. t \<in> set todos \<and> completed t
          \<and> (\<exists>c. completedAt t = Some c \<and> c \<noteq> 0 \<and> now - c > 5 * 24 * 60 * 60 * 1000)}"
    by (auto simp: archivedIds_def isArchived_def ARCHIVE_THRESHOLD_MS_def split: option.splits)
  have below: "id' t \<in> archivedIds now todos"
    if "t \<in> set todos" "completed t" "completedAt t = Some (now - 5 * 24 * 60 * 60 * 1000 - 1)"
      "now \<noteq> 5 * 24 * 60 * 60 * 1000 + 1"
    using that by (auto simp: archivedIds_def isArchived_def ARCHIVE_THRESHOLD_MS_def)
  have above: "id' t \<notin> archivedIds now [t]"
    if "completedAt t = Some (now - 5 * 24 * 60 * 60 * 1000 + 1)"
    using that by (simp add: archivedIds_def isArchived_def ARCHIVE_THRESHOLD_MS_def)
  show ?thesis
    using ids below above by blast
qed

theorem archivedIds_threshold_witness:
  "completed done_todo \<and> completedAt done_todo = Some (432001001 - 5 * 24 * 60 * 60 * 1000 - 1)
   \<and> id' done_todo \<in> archivedIds 432001001 [open_todo, done_todo]
   \<and> completedAt done_todo = Some (432000999 - 5 * 24 * 60 * 60 * 1000 + 1)
   \<and> id' done_todo \<notin> archivedIds 432000999 [done_todo]"
proof -
  have a: "done_todo \<in> set [open_todo, done_todo] \<and> completed done_todo
        \<and> completedAt done_todo = Some (432001001 - 5 * 24 * 60 * 60 * 1000 - 1)
        \<and> (432001001::int) \<noteq> 5 * 24 * 60 * 60 * 1000 + 1"
    by (simp add: done_todo_def)
  have b: "completedAt done_todo = Some (432000999 - 5 * 24 * 60 * 60 * 1000 + 1)"
    by (simp add: done_todo_def)
  from archivedIds_threshold [of 432001001 "[open_todo, done_todo]" done_todo] a
  have c: "id' done_todo \<in> archivedIds 432001001 [open_todo, done_todo]"
    by blast
  from archivedIds_threshold [of 432000999 "[done_todo]" done_todo] b
  have d: "id' done_todo \<notin> archivedIds 432000999 [done_todo]"
    by blast
  from a b c d show ?thesis by blast
qed

text \<open>
  A completed todo whose \<^verbatim>\<open>completedAt\<close> is the timestamp 0, seen 5 days and 1 ms
  later: \<^verbatim>\<open>completedAt\<close> is not null and \<open>now - completedAt\<close> exceeds the threshold, yet
  the todo is not archived.
\<close>

theorem archivedIds_epoch_counterexample:
  "completed epoch_todo \<and> completedAt epoch_todo = Some 0
   \<and> (432000001::int) - 0 > ARCHIVE_THRESHOLD_MS
   \<and> completedAt epoch_todo = Some (432000001 - ARCHIVE_THRESHOLD_MS - 1)
   \<and> id' epoch_todo \<notin> archivedIds 432000001 [epoch_todo]"
  by (simp add: epoch_todo_def archivedIds_def isArchived_def ARCHIVE_THRESHOLD_MS_def)

lemma insort_incomplete:
  "\<not> completed x \<Longrightarrow> insort_cmp completedCmp x ys = x # ys"
  by (cases ys) (simp_all add: completedCmp_def)

lemma insort_completed:
  "completed x \<Longrightarrow> list_all (\<lambda>t. \<not> completed t) as \<Longrightarrow> list_all completed bs \<Longrightarrow>
   insort_cmp completedCmp x (as @ bs) = as @ x # bs"
proof (induction as)
  case Nil
  then show ?case by (cases bs) (simp_all add: completedCmp_def)
next
  case (Cons a as)
  then show ?case by (simp add: completedCmp_def)
qed

text \<open>Sorting by \<^verbatim>\<open>completed\<close> puts the incomplete todos first and keeps the order within each group.\<close>

lemma js_sort_completedCmp:
  "js_sort completedCmp xs = filter (\<lambda>t. \<not> completed t) xs @ filter completed xs"
proof (induction xs)
  case Nil
  then show ?case by (simp add: js_sort_def)
next
  case (Cons x xs)
  have step: "js_sort completedCmp (x # xs) = insort_cmp completedCmp x (js_sort completedCmp xs)"
    by (simp add: js_sort_def)
  show ?case
  proof (cases "completed x")
    case True
    have "insort_cmp completedCmp x (filter (\<lambda>t. \<not> completed t) xs @ filter completed xs)
            = filter (\<lambda>t. \<not> completed t) xs @ x # filter completed xs"
      using True by (intro insort_completed) (simp_all add: list_all_iff)
    then show ?thesis using True by (simp add: step Cons.IH)
  next
    case False
    then show ?thesis by (simp add: step Cons.IH insort_incomplete)
  qed
qed

text \<open>
  C7. A todo is shown when its id is not archived, it is incomplete or "show completed"
  is on, it matches the status filter and it matches the priority filter. The visible
  list is the incomplete shown todos in stored order, followed by the completed shown
  todos in stored order.
\<close>

theorem filteredTodos_shown_incomplete_first:
  "filteredTodos now showCompleted f p todos
     = filter (\<lambda>t. \<not> completed t
                \<and> id' t \<notin> archivedIds now todos
                \<and> (completed t \<longrightarrow> showCompleted)
                \<and> (f = FilterAll \<or> f = FilterActive \<and> \<not> completed t \<or> f = FilterCompleted \<and> completed t)
                \<and> (p = PriorityAll \<or> p = PriorityOnly (priority t))) todos
     @ filter (\<lambda>t. completed t
                \<and> id' t \<notin> archivedIds now todos
                \<and> (completed t \<longrightarrow> showCompleted)
                \<and> (f = FilterAll \<or> f = FilterActive \<and> \<not> completed t \<or> f = FilterCompleted \<and> completed t)
                \<and> (p = PriorityAll \<or> p = PriorityOnly (priority t))) todos"
proof -
  have shown: "isVisible A showCompleted f p t
         = (id' t \<notin> A \<and> (completed t \<longrightarrow> showCompleted)
            \<and> (f = FilterAll \<or> f = FilterActive \<and> \<not> completed t \<or> f = FilterCompleted \<and> completed t)
            \<and> (p = PriorityAll \<or> p = PriorityOnly (priority t)))" for A t
    by (cases f) (auto simp: isVisible_def statusOk_def priorityOk_def)
  have "filteredTodos now showCompleted f p todos
     = filter (\<lambda>t. \<not> completed t \<and> isVisible (archivedIds now todos) showCompleted f p t) todos
     @ filter (\<lambda>t. completed t \<and> isVisible (archivedIds now todos) showCompleted f p t) todos"
    by (simp add: filteredTodos_def js_sort_completedCmp conj_commute)
  then show ?thesis
    by (simp only: shown)
qed

theorem filteredTodos_shown_incomplete_first_witness:
  "filteredTodos 2000 True FilterAll PriorityAll [done_todo, open_todo, epoch_todo]
     = [open_todo, done_todo, epoch_todo]
   \<and> filteredTodos 2000 False FilterAll PriorityAll [done_todo, open_todo, epoch_todo] = [open_todo]
   \<and> filteredTodos 432001001 True FilterAll (PriorityOnly High) [done_todo, open_todo, epoch_todo] = []"
  using filteredTodos_shown_incomplete_first [of 2000 True FilterAll PriorityAll "[done_todo, open_todo, epoch_todo]"]
    filteredTodos_shown_incomplete_first [of 2000 False FilterAll PriorityAll "[done_todo, open_todo, epoch_todo]"]
    filteredTodos_shown_incomplete_first [of 432001001 True FilterAll "PriorityOnly High" "[done_todo, open_todo, epoch_todo]"]
  by (simp add: archivedIds_def isArchived_def ARCHIVE_THRESHOLD_MS_def
      done_todo_def open_todo_def epoch_todo_def)

lemma create_round_accepted:
  "create_validate body = None \<Longrightarrow>
   create_round now body (client, stored)
     = (JObj (new_todo now body) # client, stored @ [new_todo now body])"
  by (simp add: create_round_def create_handler_def addTodo_subscribe_def addTodo_next_def)

lemma create_validate_400: "create_validate body = Some r \<Longrightarrow> \<exists>msg. r = err 400 msg"
  by (auto simp: create_validate_def Let_def split: if_splits)

lemma create_round_rejected:
  assumes "create_validate body \<noteq> None"
  shows "create_round now body (client, stored) = (client, stored)"
proof -
  from assms obtain r where r: "create_validate body = Some r" by auto
  then obtain msg where "r = err 400 msg" using create_validate_400 by blast
  with r show ?thesis
    by (simp add: create_round_def create_handler_def addTodo_subscribe_def err_def)
qed

lemma create_rounds_lists:
  "create_rounds reqs (client, stored)
     = (rev (map JObj (created (accepted reqs))) @ client, stored @ created (accepted reqs))"
proof (induction reqs arbitrary: client stored)
  case Nil
  show ?case by (simp add: created_def accepted_def)
next
  case (Cons r reqs)
  show ?case
  proof (cases "create_validate (snd r) = None")
    case True
    then show ?thesis
      by (simp add: create_round_accepted Cons.IH created_def accepted_def)
  next
    case False
    then show ?thesis
      by (simp add: create_round_rejected Cons.IH created_def accepted_def)
  qed
qed

lemma rev_front_back:
  assumes eq: "rev js @ is = is @ js"
    and new: "js \<noteq> []"
    and dist: "distinct js"
    and fresh: "set js \<inter> set is = {}"
  shows "is = [] \<and> length js = 1"
proof -
  have empty: "is = []"
  proof (rule ccontr)
    assume "is \<noteq> []"
    then have "hd (is @ js) \<in> set is" by simp
    moreover from new have "hd (rev js @ is) \<in> set js"
      by (simp add: hd_rev)
    ultimately show False using eq fresh by auto
  qed
  with eq have pal: "rev js = js" by simp
  have "length js = 1"
  proof (rule ccontr)
    assume "length js \<noteq> 1"
    with new have len: "1 < length js"
      by (cases js) auto
    from new have "0 < length js" by simp
    then have "rev js ! 0 = js ! (length js - Suc 0)"
      by (rule rev_nth)
    with pal have "js ! (length js - 1) = js ! 0"
      by simp
    moreover from len new have "length js - 1 < length js" and "0 < length js" and "length js - 1 \<noteq> 0"
      by simp_all
    ultimately show False
      using dist nth_eq_iff_index_eq [of js "length js - 1" 0] by simp
  qed
  with empty show ?thesis by simp
qed

lemma JObj_map_eq: "(map JObj xs = map JObj ys) = (xs = ys)"
  by (simp add: inj_map_eq_map inj_on_def)

text \<open>
  C9, as the code has it. A successful create appends the new record to the end of the
  stored list and puts the same record at the head of the client's list; a create the
  server rejects changes neither list. So after any sequence of creates since the list
  was fetched, each one over before the next starts, the client's list is the records
  created, newest first, followed by the list fetched, and the stored list is the list
  fetched followed by the records created, oldest first. When some record was created,
  the ids of the records created differ from one another and from the ids fetched, and
  the list holds two todos or more, the client's list is not the stored list.
\<close>

theorem create_rounds_head_on_client_tail_on_server:
  "(create_validate body = None \<longrightarrow>
      create_round now body (client, stored)
        = (JObj (new_todo now body) # client, stored @ [new_todo now body]))
   \<and> (create_validate body \<noteq> None \<longrightarrow>
      create_round now body (client, stored) = (client, stored))
   \<and> create_rounds reqs (fetched todos)
        = (rev (map JObj (created (accepted reqs))) @ map JObj todos,
           todos @ created (accepted reqs))
   \<and> (accepted reqs \<noteq> [] \<and> 2 \<le> length todos + length (accepted reqs)
       \<and> distinct (map fst (accepted reqs))
       \<and> (\<forall>r \<in> set (accepted reqs). Some (JNum (fst r)) \<notin> set (stored_ids todos))
      \<longrightarrow> fst (create_rounds reqs (fetched todos))
            \<noteq> map JObj (snd (create_rounds reqs (fetched todos))))"
proof (intro conjI impI)
  assume "create_validate body = None"
  then show "create_round now body (client, stored)
        = (JObj (new_todo now body) # client, stored @ [new_todo now body])"
    by (rule create_round_accepted)
next
  assume "create_validate body \<noteq> None"
  then show "create_round now body (client, stored) = (client, stored)"
    by (rule create_round_rejected)
next
  show lists: "create_rounds reqs (fetched todos)
        = (rev (map JObj (created (accepted reqs))) @ map JObj todos,
           todos @ created (accepted reqs))"
    by (simp add: fetched_def create_rounds_lists)
  assume h: "accepted reqs \<noteq> [] \<and> 2 \<le> length todos + length (accepted reqs)
       \<and> distinct (map fst (accepted reqs))
       \<and> (\<forall>r \<in> set (accepted reqs). Some (JNum (fst r)) \<notin> set (stored_ids todos))"
  define js where "js = stored_ids (created (accepted reqs))"
  have js: "js = map (\<lambda>r. Some (JNum (fst r))) (accepted reqs)"
    by (simp add: js_def stored_ids_created)
  have new: "js \<noteq> []" using h by (simp add: js)
  have "distinct (map (\<lambda>n. Some (JNum n)) (map fst (accepted reqs)))"
    using h by (simp add: distinct_map inj_on_def del: map_map)
  then have dist: "distinct js" by (simp add: js comp_def)
  have fresh: "set js \<inter> set (stored_ids todos) = {}"
    using h by (auto simp: js)
  show "fst (create_rounds reqs (fetched todos))
            \<noteq> map JObj (snd (create_rounds reqs (fetched todos)))"
  proof
    assume "fst (create_rounds reqs (fetched todos))
              = map JObj (snd (create_rounds reqs (fetched todos)))"
    then have "map JObj (rev (created (accepted reqs)) @ todos)
                 = map JObj (todos @ created (accepted reqs))"
      by (simp add: lists rev_map)
    then have "rev (created (accepted reqs)) @ todos = todos @ created (accepted reqs)"
      by (simp only: JObj_map_eq)
    then have "stored_ids (rev (created (accepted reqs)) @ todos)
                 = stored_ids (todos @ created (accepted reqs))"
      by simp
    then have "rev js @ stored_ids todos = stored_ids todos @ js"
      by (simp add: js_def stored_ids_def rev_map)
    from rev_front_back [OF this new dist fresh]
    have "stored_ids todos = []" and "length js = 1" by simp_all
    then have "length todos = 0" and "length (accepted reqs) = 1"
      by (simp_all add: stored_ids_def js)
    with h show False by simp
  qed
qed

lemma create_validate_empty: "create_validate [] \<noteq> None"
  by (simp add: create_validate_def get_prop_def Let_def)

theorem create_rounds_head_on_client_tail_on_server_witness:
  "create_validate body_a = None \<and> create_validate [] \<noteq> None
   \<and> create_round 1 body_a ([], []) = ([JObj todo_a], [todo_a])
   \<and> create_round 3 [] ([JObj todo_a], [todo_a]) = ([JObj todo_a], [todo_a])
   \<and> create_rounds [(1, body_a), (3, []), (2, body_b)] (fetched [])
       = ([JObj todo_b, JObj todo_a], [todo_a, todo_b])
   \<and> fst (create_rounds [(1, body_a), (3, []), (2, body_b)] (fetched []))
       \<noteq> map JObj (snd (create_rounds [(1, body_a), (3, []), (2, body_b)] (fetched [])))"
proof -
  let ?reqs = "[(1, body_a), (3, []), (2, body_b)]"
  have acc: "accepted ?reqs = [(1, body_a), (2, body_b)]"
    by (simp add: accepted_def create_validate_body_a create_validate_body_b create_validate_empty)
  have made: "created [(1, body_a), (2, body_b)] = [todo_a, todo_b]"
    by (simp add: created_def new_todo_body_a new_todo_body_b)
  have hyp: "accepted ?reqs \<noteq> [] \<and> 2 \<le> length ([] :: obj list) + length (accepted ?reqs)
       \<and> distinct (map fst (accepted ?reqs))
       \<and> (\<forall>r \<in> set (accepted ?reqs). Some (JNum (fst r)) \<notin> set (stored_ids []))"
    by (simp add: acc stored_ids_def)
  note T = create_rounds_head_on_client_tail_on_server
  have one: "create_round 1 body_a ([], []) = ([JObj todo_a], [todo_a])"
    using T [of body_a 1 "[]" "[]" "[]" "[]", THEN conjunct1, rule_format, OF create_validate_body_a]
    by (simp add: new_todo_body_a)
  have two: "create_round 3 [] ([JObj todo_a], [todo_a]) = ([JObj todo_a], [todo_a])"
    using T [of "[]" 3 "[JObj todo_a]" "[todo_a]" "[]" "[]", THEN conjunct2, THEN conjunct1,
        rule_format, OF create_validate_empty] .
  have lists: "create_rounds ?reqs (fetched []) = ([JObj todo_b, JObj todo_a], [todo_a, todo_b])"
    using T [of "[]" 3 "[]" "[]" ?reqs "[]", THEN conjunct2, THEN conjunct2, THEN conjunct1]
    by (simp add: acc made)
  have differ: "fst (create_rounds ?reqs (fetched [])) \<noteq> map JObj (snd (create_rounds ?reqs (fetched [])))"
    using T [of "[]" 3 "[]" "[]" ?reqs "[]", THEN conjunct2, THEN conjunct2, THEN conjunct2,
        rule_format, OF hyp] .
  from one two lists differ create_validate_body_a create_validate_empty show ?thesis
    by (intro conjI)
qed

text \<open>
  The list fetched holds one todo, made from the text \<^verbatim>\<open>a\<close> at the clock reading 5, and
  a create with the same text is handled within the same millisecond: the create
  succeeds, and the client's list is the stored list.
\<close>

theorem create_same_millisecond_counterexample:
  "create_validate body_a = None
   \<and> fetched [new_todo 5 body_a] = ([JObj (new_todo 5 body_a)], [new_todo 5 body_a])
   \<and> create_round 5 body_a (fetched [new_todo 5 body_a])
       = ([JObj (new_todo 5 body_a), JObj (new_todo 5 body_a)],
          [new_todo 5 body_a, new_todo 5 body_a])
   \<and> fst (create_round 5 body_a (fetched [new_todo 5 body_a]))
       = map JObj (snd (create_round 5 body_a (fetched [new_todo 5 body_a])))"
  by (simp add: fetched_def create_round_accepted create_validate_body_a)


section \<open>Dates and the overdue todos\<close>

lemma div_pred:
  assumes k: "1 < (k::int)"
  shows "y div k = (y - 1) div k + (if y mod k = 0 then 1 else 0)"
proof (cases "y mod k = 0")
  case True
  then obtain q where q: "y = k * q"
    by (auto simp: mod_eq_0_iff_dvd)
  have yq: "y div k = q"
    using k by (simp add: q)
  have "y - 1 = k * (q - 1) + (k - 1)"
    by (simp add: q algebra_simps)
  then have "(y - 1) div k = q - 1"
    by (rule int_div_pos_eq) (use k in simp_all)
  then show ?thesis using True yq by simp
next
  case False
  have r: "0 \<le> y mod k" "y mod k < k" using k by simp_all
  have "y - 1 = k * (y div k) + (y mod k - 1)"
    by (simp add: algebra_simps)
  then have "(y - 1) div k = y div k"
    by (rule int_div_pos_eq) (use r False in simp_all)
  then show ?thesis using False by simp
qed

lemma DayFromYear_alt:
  "DayFromYear y = 365 * (y - 1970) + (y - 1) div 4 - (y - 1) div 100 + (y - 1) div 400 - 477"
proof -
  have a: "(y - 1969) div 4 = (y - 1) div 4 - 492"
    using div_mult_self2 [of 4 "y - 1" "- 492"] by simp
  have b: "(y - 1901) div 100 = (y - 1) div 100 - 19"
    using div_mult_self2 [of 100 "y - 1" "- 19"] by simp
  have c: "(y - 1601) div 400 = (y - 1) div 400 - 4"
    using div_mult_self2 [of 400 "y - 1" "- 4"] by simp
  show ?thesis
    by (simp add: DayFromYear_def a b c)
qed

lemma mod_100_4: "(y::int) mod 100 = 0 \<Longrightarrow> y mod 4 = 0"
proof -
  assume "y mod 100 = 0"
  then have "100 dvd y" by (simp add: mod_eq_0_iff_dvd)
  moreover have "(4::int) dvd 100" by simp
  ultimately have "4 dvd y" by (rule dvd_trans [rotated])
  then show ?thesis by (simp add: mod_eq_0_iff_dvd)
qed

lemma mod_400_100: "(y::int) mod 400 = 0 \<Longrightarrow> y mod 100 = 0"
proof -
  assume "y mod 400 = 0"
  then have "400 dvd y" by (simp add: mod_eq_0_iff_dvd)
  moreover have "(100::int) dvd 400" by simp
  ultimately have "100 dvd y" by (rule dvd_trans [rotated])
  then show ?thesis by (simp add: mod_eq_0_iff_dvd)
qed

text \<open>The year after \<open>y\<close> starts as many days later as \<open>y\<close> has.\<close>

lemma DayFromYear_Suc: "DayFromYear (y + 1) = DayFromYear y + (if InLeapYear y then 366 else 365)"
proof -
  define A where "A = (y - 1) div 4"
  define B where "B = (y - 1) div 100"
  define C where "C = (y - 1) div 400"
  have d4: "y div 4 = A + (if y mod 4 = 0 then 1 else 0)"
    unfolding A_def by (rule div_pred) simp
  have d100: "y div 100 = B + (if y mod 100 = 0 then 1 else 0)"
    unfolding B_def by (rule div_pred) simp
  have d400: "y div 400 = C + (if y mod 400 = 0 then 1 else 0)"
    unfolding C_def by (rule div_pred) simp
  have old: "DayFromYear y = 365 * (y - 1970) + A - B + C - 477"
    unfolding A_def B_def C_def by (rule DayFromYear_alt)
  have "DayFromYear (y + 1) = 365 * (y + 1 - 1970) + (y + 1 - 1) div 4 - (y + 1 - 1) div 100
          + (y + 1 - 1) div 400 - 477"
    by (rule DayFromYear_alt)
  also have "\<dots> = 365 * (y + 1 - 1970) + y div 4 - y div 100 + y div 400 - 477"
    by (simp only: add_diff_cancel_right')
  finally have new: "DayFromYear (y + 1) = 365 * (y + 1 - 1970)
      + (A + (if y mod 4 = 0 then 1 else 0)) - (B + (if y mod 100 = 0 then 1 else 0))
      + (C + (if y mod 400 = 0 then 1 else 0)) - 477"
    by (simp only: d4 d100 d400)
  have leap: "InLeapYear y = (y mod 4 = 0 \<and> (y mod 100 \<noteq> 0 \<or> y mod 400 = 0))"
    by (auto simp: InLeapYear_def)
  show ?thesis
  proof (cases "y mod 4 = 0")
    case False
    then have "y mod 100 \<noteq> 0 \<and> y mod 400 \<noteq> 0"
      using mod_100_4 [of y] mod_400_100 [of y] by auto
    with False show ?thesis
      by (simp only: new old leap if_False if_True simp_thms) simp
  next
    case True
    show ?thesis
    proof (cases "y mod 100 = 0")
      case False
      then have "y mod 400 \<noteq> 0" using mod_400_100 [of y] by auto
      with True False show ?thesis
        by (simp only: new old leap if_False if_True simp_thms) simp
    next
      case c: True
      show ?thesis
      proof (cases "y mod 400 = 0")
        case True
        with \<open>y mod 4 = 0\<close> c show ?thesis
          by (simp only: new old leap if_False if_True simp_thms) simp
      next
        case False
        with \<open>y mod 4 = 0\<close> c show ?thesis
          by (simp only: new old leap if_False if_True simp_thms) simp
      qed
    qed
  qed
qed


lemma DayFromYear_mono:
  assumes "y < y'"
  shows "DayFromYear y + (if InLeapYear y then 366 else 365) \<le> DayFromYear y'"
proof -
  from assms have "y + 1 \<le> y'" by simp
  then show ?thesis
  proof (induction y' rule: int_ge_induct)
    case base
    then show ?case by (simp add: DayFromYear_Suc)
  next
    case (step i)
    have "DayFromYear i \<le> DayFromYear (i + 1)"
      by (simp add: DayFromYear_Suc)
    with step.IH show ?case by simp
  qed
qed

lemma month_cases:
  "1 \<le> (m::int) \<Longrightarrow> m \<le> 12 \<Longrightarrow>
   m = 1 \<or> m = 2 \<or> m = 3 \<or> m = 4 \<or> m = 5 \<or> m = 6 \<or> m = 7 \<or> m = 8 \<or> m = 9 \<or> m = 10 \<or> m = 11 \<or> m = 12"
  by arith

lemma MakeDay_calendar:
  "1 \<le> m \<Longrightarrow> m \<le> 12 \<Longrightarrow>
   MakeDay y (m - 1) d = DayFromYear y + monthStartDay (InLeapYear y) (m - 1) + d - 1"
  by (simp add: MakeDay_def Let_def)

text \<open>The day within the year of a date of the calendar lies within the year.\<close>

lemma year_day_bounds:
  assumes "calendar_date y m d"
  shows "0 \<le> monthStartDay (InLeapYear y) (m - 1) + d - 1
       \<and> monthStartDay (InLeapYear y) (m - 1) + d - 1 < (if InLeapYear y then 366 else 365)"
proof -
  from assms have d: "1 \<le> d" "d \<le> DaysInMonth y m" and m: "1 \<le> m" "m \<le> 12"
    by (auto simp: calendar_date_def)
  from month_cases [OF m] d show ?thesis
    by (elim disjE) (auto simp: monthStartDay_def DaysInMonth_def split: if_splits)
qed

lemma monthStartDay_next:
  assumes "1 \<le> m" "m \<le> 11"
  shows "monthStartDay (InLeapYear y) m = monthStartDay (InLeapYear y) (m - 1) + DaysInMonth y m"
proof -
  from assms have "1 \<le> m" "m \<le> 12" by simp_all
  from month_cases [OF this] assms(2) show ?thesis
    by (elim disjE) (simp_all add: monthStartDay_def DaysInMonth_def)
qed

lemma monthStartDay_mono:
  assumes "0 \<le> m" "m \<le> m'" "m' \<le> 11"
  shows "monthStartDay (InLeapYear y) m \<le> monthStartDay (InLeapYear y) m'"
  using assms(2,1,3)
proof (induction m' rule: int_ge_induct)
  case base
  then show ?case by simp
next
  case (step i)
  have "0 \<le> DaysInMonth y (i + 1)"
    by (simp add: DaysInMonth_def)
  with step monthStartDay_next [of "i + 1" y] show ?case
    by simp
qed

lemma month_order:
  assumes m: "1 \<le> m" "m < m'" "m' \<le> 12" and d: "d \<le> DaysInMonth y m"
  shows "monthStartDay (InLeapYear y) (m - 1) + d \<le> monthStartDay (InLeapYear y) (m' - 1)"
proof -
  have "monthStartDay (InLeapYear y) (m - 1) + d \<le> monthStartDay (InLeapYear y) m"
    using m d by (simp add: monthStartDay_next)
  also have "\<dots> \<le> monthStartDay (InLeapYear y) (m' - 1)"
    using m by (intro monthStartDay_mono) simp_all
  finally show ?thesis .
qed

lemma MakeDay_before:
  assumes a: "calendar_date y m d" and b: "calendar_date y' m' d'"
    and before: "date_before (y, m, d) (y', m', d')"
  shows "MakeDay y (m - 1) d < MakeDay y' (m' - 1) d'"
proof -
  from a have ma: "1 \<le> m" "m \<le> 12" and da: "1 \<le> d" "d \<le> DaysInMonth y m"
    by (simp_all add: calendar_date_def)
  from b have mb: "1 \<le> m'" "m' \<le> 12" and db: "1 \<le> d'" "d' \<le> DaysInMonth y' m'"
    by (simp_all add: calendar_date_def)
  note A = MakeDay_calendar [OF ma, of y d] and B = MakeDay_calendar [OF mb, of y' d']
  from before consider "y < y'" | "y = y'" "m < m'" | "y = y'" "m = m'" "d < d'"
    by (auto simp: date_before_def)
  then show ?thesis
  proof cases
    case 1
    from DayFromYear_mono [OF 1] year_day_bounds [OF a] year_day_bounds [OF b]
    show ?thesis unfolding A B by (simp split: if_splits)
  next
    case 2
    from month_order [OF ma(1) 2(2) mb(2) da(2)] db(1) 2(1)
    show ?thesis unfolding A B by simp
  next
    case 3
    then show ?thesis unfolding A B by simp
  qed
qed

text \<open>The day numbers of two dates of the calendar are in the order of the dates.\<close>

lemma MakeDay_less_iff:
  assumes a: "calendar_date y m d" and b: "calendar_date y' m' d'"
  shows "(MakeDay y (m - 1) d < MakeDay y' (m' - 1) d') = date_before (y, m, d) (y', m', d')"
proof
  assume less: "MakeDay y (m - 1) d < MakeDay y' (m' - 1) d'"
  show "date_before (y, m, d) (y', m', d')"
  proof (rule ccontr)
    assume nb: "\<not> date_before (y, m, d) (y', m', d')"
    then have "(y, m, d) = (y', m', d') \<or> date_before (y', m', d') (y, m, d)"
      unfolding date_before_def prod.case prod.inject by arith
    then consider "(y, m, d) = (y', m', d')" | "date_before (y', m', d') (y, m, d)"
      by blast
    then show False
    proof cases
      case 1
      with less show False by simp
    next
      case 2
      from MakeDay_before [OF b a 2] less show False by simp
    qed
  qed
next
  assume "date_before (y, m, d) (y', m', d')"
  with a b show "MakeDay y (m - 1) d < MakeDay y' (m' - 1) d'"
    by (rule MakeDay_before)
qed

lemma digit_not_space: "is_digit c \<Longrightarrow> \<not> is_space c"
  by (auto simp: is_digit_def is_space_def)

lemma digit_not_dash: "is_digit c \<Longrightarrow> c \<noteq> CHR ''-''"
  by (auto simp: is_digit_def)

lemma trim_digits:
  "is_digit a \<Longrightarrow> is_digit b \<Longrightarrow> trim (a # xs @ [b]) = a # xs @ [b]"
  by (simp add: trim_def digit_not_space)

lemma DATE_REGEX_chars:
  assumes "DATE_REGEX s"
  shows "\<exists>a b c d e f g h. s = [a, b, c, d, CHR ''-'', e, f, CHR ''-'', g, h]
           \<and> is_digit a \<and> is_digit b \<and> is_digit c \<and> is_digit d
           \<and> is_digit e \<and> is_digit f \<and> is_digit g \<and> is_digit h"
proof -
  from assms have "length s = 10" by (simp add: DATE_REGEX_def)
  then obtain a b c d x e f z g h where s: "s = [a, b, c, d, x, e, f, z, g, h]"
    by (auto simp: eval_nat_numeral length_Suc_conv)
  from assms show ?thesis
    unfolding s by (simp add: DATE_REGEX_def eval_nat_numeral)
qed

text \<open>On a digit, the value of its character code is the digit.\<close>

lemma date_digit_values:
  "date_digit CHR ''0'' = 0" "date_digit CHR ''1'' = 1" "date_digit CHR ''2'' = 2"
  "date_digit CHR ''3'' = 3" "date_digit CHR ''4'' = 4" "date_digit CHR ''5'' = 5"
  "date_digit CHR ''6'' = 6" "date_digit CHR ''7'' = 7" "date_digit CHR ''8'' = 8"
  "date_digit CHR ''9'' = 9"
  by (simp_all add: date_digit_def)

lemma digit_value_date_digit: "is_digit c \<Longrightarrow> digit_value c = date_digit c"
  by (auto simp: is_digit_def digit_value_def date_digit_values)

lemma js_Number_digits4:
  assumes "is_digit a" "is_digit b" "is_digit c" "is_digit d"
  shows "js_Number [a, b, c, d]
           = Some (1000 * date_digit a + 100 * date_digit b + 10 * date_digit c + date_digit d)"
  using assms trim_digits [of a d "[b, c]"]
  by (simp add: js_Number_def decimal_def digit_value_date_digit)

lemma js_Number_digits2:
  assumes "is_digit a" "is_digit b"
  shows "js_Number [a, b] = Some (10 * date_digit a + date_digit b)"
  using assms trim_digits [of a b "[]"]
  by (simp add: js_Number_def decimal_def digit_value_date_digit)

text \<open>
  The date made of a string in the server's format: the code reads the year, the month
  and the day the string names.
\<close>

lemma DATE_REGEX_Date:
  assumes "DATE_REGEX s"
  shows "dueDate_Date tz s
           = Some (TimeValue (new_Date tz (date_year s) (date_month s - 1) (date_day s)))"
proof -
  from DATE_REGEX_chars [OF assms] obtain a b c d e f g h
    where s: "s = [a, b, c, d, CHR ''-'', e, f, CHR ''-'', g, h]"
      and dg: "is_digit a" "is_digit b" "is_digit c" "is_digit d"
        "is_digit e" "is_digit f" "is_digit g" "is_digit h"
    by blast
  have split: "split_on CHR ''-'' s = [[a, b, c, d], [e, f], [g, h]]"
    using dg by (simp add: s digit_not_dash)
  have y: "js_Number [a, b, c, d] = Some (date_year s)"
    using dg by (simp add: js_Number_digits4 date_year_def s)
  have m: "js_Number [e, f] = Some (date_month s)"
    using dg by (simp add: js_Number_digits2 date_month_def s)
  have d: "js_Number [g, h] = Some (date_day s)"
    using dg by (simp add: js_Number_digits2 date_day_def s)
  show ?thesis
    by (simp add: dueDate_Date_def split y m d)
qed

lemma DATE_REGEX_not_empty: "DATE_REGEX s \<Longrightarrow> s \<noteq> []"
  by (auto simp: DATE_REGEX_def)

text \<open>Local midnights compare as their days do.\<close>

lemma midnight_less_iff:
  "midnights_increase tz \<Longrightarrow> (UTC tz (D * msPerDay) < UTC tz (D' * msPerDay)) = (D < D')"
proof -
  assume inc: "midnights_increase tz"
  show ?thesis
  proof
    assume less: "UTC tz (D * msPerDay) < UTC tz (D' * msPerDay)"
    show "D < D'"
    proof (rule ccontr)
      assume "\<not> D < D'"
      then consider "D = D'" | "D' < D" by linarith
      then show False
      proof cases
        case 1
        with less show False by simp
      next
        case 2
        with inc have "UTC tz (D' * msPerDay) < UTC tz (D * msPerDay)"
          by (simp add: midnights_increase_def)
        with less show False by simp
      qed
    qed
  next
    assume "D < D'"
    with inc show "UTC tz (D * msPerDay) < UTC tz (D' * msPerDay)"
      by (simp add: midnights_increase_def)
  qed
qed

lemma dueBefore_DATE_REGEX:
  assumes zone: "midnights_increase tz" and s: "dueDate t = Some s" "DATE_REGEX s"
  shows "dueBefore tz (setHours0 tz now) t = Some (date_read_day s < Day (LocalTime tz now))"
  by (simp add: dueBefore_def s DATE_REGEX_Date new_Date_def setHours0_def date_read_day_def
      midnight_less_iff [OF zone])

lemma fixed_zone_midnights: "midnights_increase (fixed_zone tza)"
  by (simp add: midnights_increase_def fixed_zone_def msPerDay_def)

text \<open>The overdue ids of a list whose due dates are in the server's format.\<close>

lemma overdueIds_wf:
  assumes zone: "midnights_increase tz"
    and wf: "list_all (\<lambda>t. case dueDate t of None \<Rightarrow> True | Some s \<Rightarrow> DATE_REGEX s) todos"
  shows "overdueIds tz now todos
           = Some {id' t | t. t \<in> set todos \<and> \<not> completed t
                \<and> (\<exists>s. dueDate t = Some s \<and> date_read_day s < Day (LocalTime tz now))}"
proof -
  let ?today = "setHours0 tz now"
  have verdict: "dueBefore tz ?today t = Some (date_read_day s < Day (LocalTime tz now))"
    if "t \<in> set todos" "dueDate t = Some s" for t s
  proof -
    from wf that have "DATE_REGEX s" by (auto simp: list_all_iff)
    with zone that(2) show ?thesis by (rule dueBefore_DATE_REGEX)
  qed
  have cand: "hasDueDate t = (\<not> completed t \<and> (\<exists>s. dueDate t = Some s))" if "t \<in> set todos" for t
  proof (cases "dueDate t")
    case None
    then show ?thesis by (simp add: hasDueDate_def)
  next
    case (Some s)
    with wf that have "DATE_REGEX s" by (auto simp: list_all_iff)
    then have "s \<noteq> []" by (rule DATE_REGEX_not_empty)
    with Some show ?thesis by (simp add: hasDueDate_def)
  qed
  have all: "list_all (\<lambda>t. dueBefore tz ?today t \<noteq> None) (filter hasDueDate todos)"
    using verdict cand by (auto simp: list_all_iff)
  have pred: "(hasDueDate t \<and> dueBefore tz ?today t = Some True)
               = (\<not> completed t
                  \<and> (\<exists>s. dueDate t = Some s \<and> date_read_day s < Day (LocalTime tz now)))"
    if "t \<in> set todos" for t
    using verdict [OF that] cand [OF that] by auto
  have "set (map id' (filter (\<lambda>t. dueBefore tz ?today t = Some True) (filter hasDueDate todos)))
          = id' ` {t \<in> set todos. hasDueDate t \<and> dueBefore tz ?today t = Some True}"
    by auto
  also have "\<dots> = id' ` {t \<in> set todos. \<not> completed t
                \<and> (\<exists>s. dueDate t = Some s \<and> date_read_day s < Day (LocalTime tz now))}"
    by (simp add: pred cong: conj_cong)
  also have "\<dots> = {id' t | t. t \<in> set todos \<and> \<not> completed t
                \<and> (\<exists>s. dueDate t = Some s \<and> date_read_day s < Day (LocalTime tz now))}"
    by blast
  finally have "set (map id' (filter (\<lambda>t. dueBefore tz ?today t = Some True) (filter hasDueDate todos)))
          = {id' t | t. t \<in> set todos \<and> \<not> completed t
                \<and> (\<exists>s. dueDate t = Some s \<and> date_read_day s < Day (LocalTime tz now))}" .
  with all show ?thesis
    by (simp add: overdueIds_def Let_def)
qed

text \<open>
  C5, as the code has it. Let every later day start later in the local time zone, and let
  the due dates of the list be null or in the format the server accepts. For every
  current time the overdue ids are exactly the ids of the incomplete todos with a due
  date for which \<^verbatim>\<open>new Date(y, m - 1, d)\<close>, on the year, the month and the day the
  string names, is a local day strictly before the local day of the current time. There
  a year from 0 to 99 stands for 1900 plus that year, and a month or a day outside the
  calendar carries over. When the three numbers, with that reading of the year, are a
  date of the calendar, the todo is overdue exactly when that date is before today's
  date. A todo due today is not overdue, whatever the time of day.
\<close>

theorem overdueIds_days_read_by_Date:
  assumes zone: "midnights_increase tz"
    and wf: "list_all (\<lambda>t. case dueDate t of None \<Rightarrow> True | Some s \<Rightarrow> DATE_REGEX s) todos"
  shows "overdueIds tz now todos
           = Some {id' t | t. t \<in> set todos \<and> \<not> completed t
                \<and> (\<exists>s. dueDate t = Some s \<and> date_read_day s < Day (LocalTime tz now))}
       \<and> (\<forall>t \<in> set todos. \<forall>s ty tm td.
             \<not> completed t \<and> dueDate t = Some s
             \<and> calendar_date (fullYear (date_year s)) (date_month s) (date_day s)
             \<and> calendar_date ty tm td
             \<and> Day (LocalTime tz now) = MakeDay ty (tm - 1) td
           \<longrightarrow> overdueIds tz now [t]
                 = Some (if date_before (fullYear (date_year s), date_month s, date_day s) (ty, tm, td)
                         then {id' t} else {}))
       \<and> (list_all (\<lambda>t. \<exists>s. dueDate t = Some s \<and> date_read_day s = Day (LocalTime tz now)) todos
           \<longrightarrow> overdueIds tz now todos = Some {})"
proof (intro conjI)
  show ids: "overdueIds tz now todos
           = Some {id' t | t. t \<in> set todos \<and> \<not> completed t
                \<and> (\<exists>s. dueDate t = Some s \<and> date_read_day s < Day (LocalTime tz now))}"
    using zone wf by (rule overdueIds_wf)
  show "\<forall>t \<in> set todos. \<forall>s ty tm td.
             \<not> completed t \<and> dueDate t = Some s
             \<and> calendar_date (fullYear (date_year s)) (date_month s) (date_day s)
             \<and> calendar_date ty tm td
             \<and> Day (LocalTime tz now) = MakeDay ty (tm - 1) td
           \<longrightarrow> overdueIds tz now [t]
                 = Some (if date_before (fullYear (date_year s), date_month s, date_day s) (ty, tm, td)
                         then {id' t} else {})"
  proof (intro ballI allI impI)
    fix t :: Todo and s ty tm td
    assume t: "t \<in> set todos"
      and h: "\<not> completed t \<and> dueDate t = Some s
             \<and> calendar_date (fullYear (date_year s)) (date_month s) (date_day s)
             \<and> calendar_date ty tm td
             \<and> Day (LocalTime tz now) = MakeDay ty (tm - 1) td"
    from wf t h have "DATE_REGEX s" by (auto simp: list_all_iff)
    with h have wf1: "list_all (\<lambda>t. case dueDate t of None \<Rightarrow> True | Some s \<Rightarrow> DATE_REGEX s) [t]"
      by simp
    from h have due: "calendar_date (fullYear (date_year s)) (date_month s) (date_day s)"
      and today: "calendar_date ty tm td" by simp_all
    have "(date_read_day s < Day (LocalTime tz now))
            = date_before (fullYear (date_year s), date_month s, date_day s) (ty, tm, td)"
      using h MakeDay_less_iff [OF due today] by (simp add: date_read_day_def)
    moreover have "overdueIds tz now [t]
            = Some {id' t' | t'. t' \<in> set [t] \<and> \<not> completed t'
                \<and> (\<exists>s. dueDate t' = Some s \<and> date_read_day s < Day (LocalTime tz now))}"
      using zone wf1 by (rule overdueIds_wf)
    ultimately show "overdueIds tz now [t]
                 = Some (if date_before (fullYear (date_year s), date_month s, date_day s) (ty, tm, td)
                         then {id' t} else {})"
      using h by auto
  qed
  show "list_all (\<lambda>t. \<exists>s. dueDate t = Some s \<and> date_read_day s = Day (LocalTime tz now)) todos
           \<longrightarrow> overdueIds tz now todos = Some {}"
    by (auto simp: ids list_all_iff)
qed

lemma DATE_REGEX_examples:
  "DATE_REGEX ''2024-03-01''" "DATE_REGEX ''2024-03-02''" "DATE_REGEX ''2024-02-30''"
  "DATE_REGEX ''0099-12-31''"
  by (simp_all add: DATE_REGEX_def is_digit_def)

lemma date_numbers_examples:
  "date_year ''2024-03-01'' = 2024" "date_month ''2024-03-01'' = 3" "date_day ''2024-03-01'' = 1"
  "date_year ''2024-03-02'' = 2024" "date_month ''2024-03-02'' = 3" "date_day ''2024-03-02'' = 2"
  "date_year ''2024-02-30'' = 2024" "date_month ''2024-02-30'' = 2" "date_day ''2024-02-30'' = 30"
  "date_year ''0099-12-31'' = 99" "date_month ''0099-12-31'' = 12" "date_day ''0099-12-31'' = 31"
  by (simp_all add: date_year_def date_month_def date_day_def date_digit_values)

text \<open>The clock reading 1709334000000 is 2 March 2024, 01:00, two hours east of UTC.\<close>

lemma Day_example: "Day (LocalTime (fixed_zone 7200000) 1709334000000) = MakeDay 2024 (3 - 1) 2"
  by (simp add: Day_def fixed_zone_def MakeDay_def DayFromYear_def InLeapYear_def
      monthStartDay_def msPerDay_def)

theorem overdueIds_days_read_by_Date_witness:
  "midnights_increase (fixed_zone 7200000)
   \<and> list_all (\<lambda>t. case dueDate t of None \<Rightarrow> True | Some s \<Rightarrow> DATE_REGEX s) [due_todo, today_todo]
   \<and> overdueIds (fixed_zone 7200000) 1709334000000 [due_todo] = Some {4}
   \<and> overdueIds (fixed_zone 7200000) 1709334000000 [today_todo] = Some {}"
proof -
  let ?tz = "fixed_zone 7200000"
  have wf: "list_all (\<lambda>t. case dueDate t of None \<Rightarrow> True | Some s \<Rightarrow> DATE_REGEX s) [due_todo, today_todo]"
    by (simp add: due_todo_def today_todo_def DATE_REGEX_examples)
  have mem: "due_todo \<in> set [due_todo, today_todo]" "today_todo \<in> set [due_todo, today_todo]"
    by simp_all
  have dates: "calendar_date 2024 3 1" "calendar_date 2024 3 2"
    by (simp_all add: calendar_date_def DaysInMonth_def)
  have hyp_a: "\<not> completed due_todo \<and> dueDate due_todo = Some ''2024-03-01''
        \<and> calendar_date (fullYear (date_year ''2024-03-01'')) (date_month ''2024-03-01'')
            (date_day ''2024-03-01'')
        \<and> calendar_date 2024 3 2
        \<and> Day (LocalTime ?tz 1709334000000) = MakeDay 2024 (3 - 1) 2"
    using dates Day_example by (simp add: due_todo_def date_numbers_examples fullYear_def)
  have hyp_b: "\<not> completed today_todo \<and> dueDate today_todo = Some ''2024-03-02''
        \<and> calendar_date (fullYear (date_year ''2024-03-02'')) (date_month ''2024-03-02'')
            (date_day ''2024-03-02'')
        \<and> calendar_date 2024 3 2
        \<and> Day (LocalTime ?tz 1709334000000) = MakeDay 2024 (3 - 1) 2"
    using dates Day_example by (simp add: today_todo_def date_numbers_examples fullYear_def)
  note T = overdueIds_days_read_by_Date [OF fixed_zone_midnights wf, of 7200000 1709334000000,
      THEN conjunct2, THEN conjunct1, rule_format]
  note A = T [OF mem(1) hyp_a] and B = T [OF mem(2) hyp_b]
  have a: "overdueIds ?tz 1709334000000 [due_todo] = Some {4}"
    unfolding A by (simp add: date_before_def date_numbers_examples fullYear_def due_todo_def)
  have b: "overdueIds ?tz 1709334000000 [today_todo] = Some {}"
    unfolding B by (simp add: date_before_def date_numbers_examples fullYear_def)
  from a b wf fixed_zone_midnights show ?thesis
    by blast
qed

text \<open>
  Two due dates the server accepts, two hours east of UTC. The due date
  \<^verbatim>\<open>2024-02-30\<close> seen on 1 March 2024 at 13:00: the todo is incomplete and the year,
  month and day of its due date come before those of today, yet it is not overdue, since
  \<^verbatim>\<open>new Date(2024, 1, 30)\<close> is 1 March 2024. The due date \<^verbatim>\<open>0099-12-31\<close> seen
  when the clock reads 0, on 1 January 1970 at 02:00: 31 December of the year 99 is a
  date of the calendar before today's, yet the todo is not overdue, since
  \<^verbatim>\<open>new Date(99, 11, 31)\<close> is 31 December 1999.
\<close>

theorem overdueIds_digits_counterexample:
  "\<not> completed feb30_todo \<and> dueDate feb30_todo = Some ''2024-02-30''
   \<and> DATE_REGEX ''2024-02-30''
   \<and> date_year ''2024-02-30'' = 2024 \<and> date_month ''2024-02-30'' = 2 \<and> date_day ''2024-02-30'' = 30
   \<and> calendar_date 2024 3 1
   \<and> Day (LocalTime (fixed_zone 7200000) 1709290800000) = MakeDay 2024 (3 - 1) 1
   \<and> date_before (2024, 2, 30) (2024, 3, 1)
   \<and> overdueIds (fixed_zone 7200000) 1709290800000 [feb30_todo] = Some {}
   \<and> \<not> completed year99_todo \<and> dueDate year99_todo = Some ''0099-12-31''
   \<and> DATE_REGEX ''0099-12-31''
   \<and> date_year ''0099-12-31'' = 99 \<and> date_month ''0099-12-31'' = 12 \<and> date_day ''0099-12-31'' = 31
   \<and> calendar_date 99 12 31 \<and> calendar_date 1970 1 1
   \<and> Day (LocalTime (fixed_zone 7200000) 0) = MakeDay 1970 (1 - 1) 1
   \<and> date_before (99, 12, 31) (1970, 1, 1)
   \<and> overdueIds (fixed_zone 7200000) 0 [year99_todo] = Some {}"
proof -
  let ?tz = "fixed_zone 7200000"
  have day: "Day (LocalTime ?tz 1709290800000) = MakeDay 2024 (3 - 1) 1"
    "Day (LocalTime ?tz 0) = MakeDay 1970 (1 - 1) 1"
    by (simp_all add: Day_def fixed_zone_def MakeDay_def DayFromYear_def InLeapYear_def
        monthStartDay_def msPerDay_def)
  have parts: "split_on CHR ''-'' ''2024-02-30'' = [''2024'', ''02'', ''30'']"
    "split_on CHR ''-'' ''0099-12-31'' = [''0099'', ''12'', ''31'']"
    by simp_all
  have nums: "js_Number ''2024'' = Some 2024" "js_Number ''02'' = Some 2" "js_Number ''30'' = Some 30"
    "js_Number ''0099'' = Some 99" "js_Number ''12'' = Some 12" "js_Number ''31'' = Some 31"
    by (simp_all add: js_Number_def trim_def is_space_def is_digit_def decimal_def digit_value_def)
  have date: "dueDate_Date ?tz ''2024-02-30'' = Some (TimeValue (new_Date ?tz 2024 1 30))"
    "dueDate_Date ?tz ''0099-12-31'' = Some (TimeValue (new_Date ?tz 99 11 31))"
    by (simp_all add: dueDate_Date_def parts nums)
  have tv: "new_Date ?tz 2024 1 30 = 1709244000000" "new_Date ?tz 99 11 31 = 946591200000"
    by (simp_all add: new_Date_def fullYear_def fixed_zone_def MakeDay_def DayFromYear_def
        InLeapYear_def monthStartDay_def msPerDay_def)
  have today: "setHours0 ?tz 1709290800000 = 1709244000000" "setHours0 ?tz 0 = - 7200000"
    by (simp_all add: setHours0_def Day_def fixed_zone_def msPerDay_def)
  have ids: "overdueIds ?tz 1709290800000 [feb30_todo] = Some {}"
    "overdueIds ?tz 0 [year99_todo] = Some {}"
    by (simp_all add: overdueIds_def Let_def hasDueDate_def dueBefore_def feb30_todo_def
        year99_todo_def date tv today)
  have cal: "calendar_date 2024 3 1" "calendar_date 99 12 31" "calendar_date 1970 1 1"
    by (simp_all add: calendar_date_def DaysInMonth_def InLeapYear_def)
  have before: "date_before (2024, 2, 30) (2024, 3, 1)" "date_before (99, 12, 31) (1970, 1, 1)"
    by (simp_all add: date_before_def)
  have todos: "\<not> completed feb30_todo" "dueDate feb30_todo = Some ''2024-02-30''"
    "\<not> completed year99_todo" "dueDate year99_todo = Some ''0099-12-31''"
    by (simp_all add: feb30_todo_def year99_todo_def)
  from day ids cal before todos DATE_REGEX_examples(3,4) date_numbers_examples(7-12)
  show ?thesis
    by (intro conjI)
qed

end
